theory Spec2Isabelle
  imports Complex_Main "HOL-Library.Log_Nat" "HOL-Library.Sublist" "HOL-Library.Multiset"
begin

section \<open>Data model (the User and Task models of backend/models)\<close>

text \<open>
  Dates are milliseconds since the epoch (\<open>int\<close>), a nullable date is an
  \<open>int option\<close>. ObjectIds are natural numbers. The schema's enums are datatypes;
  \<open>status_str\<close> and \<open>priority_str\<close> give the strings the code compares.
\<close>

type_synonym date = int
type_synonym objectId = nat

datatype status = Pending | Completed
datatype priority = Low | Medium | High

fun status_str :: "status \<Rightarrow> string" where
  "status_str Pending = ''pending''"
| "status_str Completed = ''completed''"

fun priority_str :: "priority \<Rightarrow> string" where
  "priority_str Low = ''low''"
| "priority_str Medium = ''medium''"
| "priority_str High = ''high''"

record task =
  task_id :: objectId
  title :: string
  description :: string
  status :: status
  priority :: priority
  dueDate :: "date option"
  completedAt :: "date option"
  user :: objectId
  tags :: "string list"
  isImportant :: bool
  task_notes :: "string option"
  createdAt :: date
  updatedAt :: date

record account =
  user_id :: objectId
  name :: string
  email :: string
  isActive :: bool

text \<open>The task collection, in the store's natural (insertion) order.\<close>

type_synonym store = "task list"

subsection \<open>Task model: save hook and instance methods\<close>

text \<open>
  \<open>taskSchema.pre('save')\<close>. The first argument is \<open>this.isModified('status')\<close>,
  the second the value of \<open>new Date()\<close>.
\<close>

definition pre_save :: "bool \<Rightarrow> date \<Rightarrow> task \<Rightarrow> task" where
  "pre_save status_modified now t =
     (let t1 = (if status_modified \<and> status t = Completed \<and> completedAt t = None
                then t\<lparr>completedAt := Some now\<rparr> else t)
      in if status_modified \<and> status t1 = Pending
         then t1\<lparr>completedAt := None\<rparr> else t1)"

text \<open>\<open>document.save()\<close>: the hook, then the timestamps option refreshes \<open>updatedAt\<close>.\<close>

definition save :: "bool \<Rightarrow> date \<Rightarrow> task \<Rightarrow> task" where
  "save status_modified now t = (pre_save status_modified now t)\<lparr>updatedAt := now\<rparr>"

text \<open>\<open>taskSchema.methods.toggleStatus\<close>.\<close>

definition toggleStatus :: "date \<Rightarrow> task \<Rightarrow> task" where
  "toggleStatus now t =
     (let t1 = t\<lparr>status := (if status t = Pending then Completed else Pending)\<rparr>;
          t2 = (if status t1 = Completed then t1\<lparr>completedAt := Some now\<rparr>
                else t1\<lparr>completedAt := None\<rparr>)
      in save True now t2)"

text \<open>\<open>taskSchema.methods.toggleImportant\<close>.\<close>

definition toggleImportant :: "date \<Rightarrow> task \<Rightarrow> task" where
  "toggleImportant now t = save False now (t\<lparr>isImportant := \<not> isImportant t\<rparr>)"

text \<open>The completion invariant: \<open>completedAt\<close> is non-null exactly when the status is completed.\<close>

definition completion_consistent :: "task \<Rightarrow> bool" where
  "completion_consistent t = ((completedAt t \<noteq> None) = (status t = Completed))"

section \<open>Requests, responses and the store\<close>

text \<open>
  A JSON value of a request body. \<open>JDate\<close> is a JavaScript \<open>Date\<close> object: JSON has
  none, the validation middleware puts one where a date field was given.
\<close>

datatype jval = JNull | JBool bool | JNum int | JStr string | JDate date
  | JArr "jval list" | JObj "(string \<times> jval) list"

type_synonym body = "(string \<times> jval) list"

text \<open>What a handler reads from outside the request: the clock, the id a new document
  gets, JavaScript's date parser, and the store's regular expressions: \<open>regex p\<close> is the
  case-insensitive search for the pattern \<open>p\<close>, or \<open>None\<close> when \<open>p\<close> is no pattern.\<close>

record env =
  now :: date
  new_id :: objectId
  parse_date :: "string \<Rightarrow> date option"
  regex :: "string \<Rightarrow> (string \<Rightarrow> bool) option"

record statistics =
  total :: nat
  completed :: nat
  pending :: nat
  important :: nat

record task_stats = statistics +
  overdue :: nat
  completionRate :: int
  high :: nat
  medium :: nat
  low :: nat

datatype data = NoData | TaskData "task option" | ListData "task list" statistics
  | StatsData task_stats

text \<open>A validation error: the key it is about and the validator's error type.\<close>

type_synonym violation = "string \<times> string"

text \<open>The response: its status code and the fields of its JSON envelope.\<close>

record response =
  code :: nat
  message :: string
  errors :: "violation list"
  count :: "nat option"
  data :: data

definition reply :: "nat \<Rightarrow> string \<Rightarrow> data \<Rightarrow> response" where
  "reply c m d = \<lparr>code = c, message = m, errors = [], count = None, data = d\<rparr>"

text \<open>What the store raises: a value that does not cast to its path's type, a document
  that fails the schema's validators, a query the server refuses.\<close>

datatype db_error = CastError | ValidationError | MongoServerError

subsection \<open>ObjectId casting\<close>

text \<open>
  A path parameter or a body value is a string; Mongoose casts it to an ObjectId and
  raises \<open>CastError\<close> when it is not one. An ObjectId is written as 24 hexadecimal
  digits. (Older drivers also take a string of 12 characters for the 12 bytes; no
  property below is about such a string.)
\<close>

definition hex_digit :: "char \<Rightarrow> nat option" where
  "hex_digit c =
     (let n = (of_char c :: nat) in
      if 48 \<le> n \<and> n \<le> 57 then Some (n - 48)
      else if 97 \<le> n \<and> n \<le> 102 then Some (n - 87)
      else if 65 \<le> n \<and> n \<le> 70 then Some (n - 55)
      else None)"

fun hex_value :: "nat \<Rightarrow> string \<Rightarrow> nat option" where
  "hex_value acc [] = Some acc"
| "hex_value acc (c # cs) =
     (case hex_digit c of None \<Rightarrow> None | Some d \<Rightarrow> hex_value (16 * acc + d) cs)"

definition castObjectId :: "string \<Rightarrow> objectId option" where
  "castObjectId s = (if length s = 24 then hex_value 0 s else None)"

subsection \<open>Collection operations\<close>

fun find_doc :: "objectId \<Rightarrow> store \<Rightarrow> task option" where
  "find_doc i [] = None"
| "find_doc i (t # ts) = (if task_id t = i then Some t else find_doc i ts)"

fun replace_doc :: "task \<Rightarrow> store \<Rightarrow> store" where
  "replace_doc t' [] = []"
| "replace_doc t' (t # ts) = (if task_id t = task_id t' then t' # ts else t # replace_doc t' ts)"

fun delete_doc :: "objectId \<Rightarrow> store \<Rightarrow> store" where
  "delete_doc i [] = []"
| "delete_doc i (t # ts) = (if task_id t = i then ts else t # delete_doc i ts)"

text \<open>\<open>Task.findById(id)\<close>: the cast of the id may raise.\<close>

definition findById :: "store \<Rightarrow> string \<Rightarrow> db_error + task option" where
  "findById st s = (case castObjectId s of None \<Rightarrow> Inl CastError | Some i \<Rightarrow> Inr (find_doc i st))"

subsection \<open>Casting and validating a document's fields (the Mongoose schema)\<close>

definition is_ws :: "char \<Rightarrow> bool" where
  "is_ws c = (c = CHR '' '' \<or> c = CHR 0x09 \<or> c = CHR 0x0A \<or> c = CHR 0x0B \<or> c = CHR 0x0C
     \<or> c = CHR 0x0D)"

definition trim :: "string \<Rightarrow> string" where
  "trim s = rev (dropWhile is_ws (rev (dropWhile is_ws s)))"

fun cast_tags :: "jval list \<Rightarrow> db_error + string list" where
  "cast_tags [] = Inr []"
| "cast_tags (JStr s # vs) =
     (if length (trim s) > 20 then Inl ValidationError
      else (case cast_tags vs of Inl e \<Rightarrow> Inl e | Inr ss \<Rightarrow> Inr (trim s # ss)))"
| "cast_tags (v # vs) = Inl CastError"

definition cast_date :: "env \<Rightarrow> jval \<Rightarrow> db_error + date option" where
  "cast_date e v =
     (case v of
        JNull \<Rightarrow> Inr None
      | JDate d \<Rightarrow> Inr (Some d)
      | JNum n \<Rightarrow> Inr (Some n)
      | JStr s \<Rightarrow> (case parse_date e s of None \<Rightarrow> Inl CastError | Some d \<Rightarrow> Inr (Some d))
      | _ \<Rightarrow> Inl CastError)"

text \<open>
  One path of the schema set to one value: the schema's type cast, its \<open>trim\<close> setter
  and its validators (\<open>required\<close>, \<open>minlength\<close>, \<open>maxlength\<close>, \<open>enum\<close>). A path the
  schema does not declare is dropped (strict mode). The values are the ones request
  validation hands on (strings, booleans, dates, null, arrays of strings); a value of
  another type is taken as a cast error.
\<close>

definition cast_field :: "env \<Rightarrow> string \<Rightarrow> jval \<Rightarrow> task \<Rightarrow> db_error + task" where
  "cast_field e k v t =
     (if k = ''title'' then
        (case v of
           JStr s \<Rightarrow> if trim s = [] \<or> length (trim s) > 100 then Inl ValidationError
                     else Inr (t\<lparr>title := trim s\<rparr>)
         | JNull \<Rightarrow> Inl ValidationError
         | _ \<Rightarrow> Inl CastError)
      else if k = ''description'' then
        (case v of
           JStr s \<Rightarrow> if length (trim s) > 500 then Inl ValidationError
                     else Inr (t\<lparr>description := trim s\<rparr>)
         | _ \<Rightarrow> Inl CastError)
      else if k = ''status'' then
        (case v of
           JStr s \<Rightarrow> if s = ''pending'' then Inr (t\<lparr>status := Pending\<rparr>)
                     else if s = ''completed'' then Inr (t\<lparr>status := Completed\<rparr>)
                     else Inl ValidationError
         | JNull \<Rightarrow> Inl ValidationError
         | _ \<Rightarrow> Inl CastError)
      else if k = ''priority'' then
        (case v of
           JStr s \<Rightarrow> if s = ''low'' then Inr (t\<lparr>priority := Low\<rparr>)
                     else if s = ''medium'' then Inr (t\<lparr>priority := Medium\<rparr>)
                     else if s = ''high'' then Inr (t\<lparr>priority := High\<rparr>)
                     else Inl ValidationError
         | _ \<Rightarrow> Inl CastError)
      else if k = ''dueDate'' then
        (case cast_date e v of Inl err \<Rightarrow> Inl err | Inr d \<Rightarrow> Inr (t\<lparr>dueDate := d\<rparr>))
      else if k = ''completedAt'' then
        (case cast_date e v of Inl err \<Rightarrow> Inl err | Inr d \<Rightarrow> Inr (t\<lparr>completedAt := d\<rparr>))
      else if k = ''user'' then
        (case v of
           JStr s \<Rightarrow> (case castObjectId s of None \<Rightarrow> Inl CastError
                      | Some i \<Rightarrow> Inr (t\<lparr>user := i\<rparr>))
         | JNull \<Rightarrow> Inl ValidationError
         | _ \<Rightarrow> Inl CastError)
      else if k = ''tags'' then
        (case v of
           JArr vs \<Rightarrow> (case cast_tags vs of Inl err \<Rightarrow> Inl err | Inr ss \<Rightarrow> Inr (t\<lparr>tags := ss\<rparr>))
         | _ \<Rightarrow> Inl CastError)
      else if k = ''isImportant'' then
        (case v of
           JBool b \<Rightarrow> Inr (t\<lparr>isImportant := b\<rparr>)
         | _ \<Rightarrow> Inl CastError)
      else if k = ''notes'' then
        (case v of
           JStr s \<Rightarrow> if length (trim s) > 1000 then Inl ValidationError
                     else Inr (t\<lparr>task_notes := Some (trim s)\<rparr>)
         | JNull \<Rightarrow> Inr (t\<lparr>task_notes := None\<rparr>)
         | _ \<Rightarrow> Inl CastError)
      else Inr t)"

fun cast_fields :: "env \<Rightarrow> body \<Rightarrow> task \<Rightarrow> db_error + task" where
  "cast_fields e [] t = Inr t"
| "cast_fields e ((k, v) # kvs) t =
     (case cast_field e k v t of Inl err \<Rightarrow> Inl err | Inr t' \<Rightarrow> cast_fields e kvs t')"

text \<open>A new document with the schema's defaults.\<close>

definition default_doc :: "env \<Rightarrow> task" where
  "default_doc e =
     \<lparr>task_id = new_id e, title = [], description = [], status = Pending, priority = Medium,
      dueDate = None, completedAt = None, user = 0, tags = [], isImportant = False,
      task_notes = None, createdAt = now e, updatedAt = now e\<rparr>"

text \<open>
  \<open>Task.findByIdAndUpdate(id, update, {new: true, runValidators: true})\<close>: the update's
  paths are cast, validated and set on the stored document, \<open>updatedAt\<close> is refreshed,
  and the new document is returned. It is a query: the \<open>save\<close> hook does not run.
\<close>

definition findByIdAndUpdate ::
  "env \<Rightarrow> store \<Rightarrow> string \<Rightarrow> body \<Rightarrow> db_error + (task option \<times> store)" where
  "findByIdAndUpdate e st s b =
     (case castObjectId s of
        None \<Rightarrow> Inl CastError
      | Some i \<Rightarrow>
          (case find_doc i st of
             None \<Rightarrow> (case cast_fields e b (default_doc e) of Inl err \<Rightarrow> Inl err | Inr _ \<Rightarrow> Inr (None, st))
           | Some t \<Rightarrow>
               (case cast_fields e b t of
                  Inl err \<Rightarrow> Inl err
                | Inr t' \<Rightarrow> Inr (Some (t'\<lparr>updatedAt := now e\<rparr>), replace_doc (t'\<lparr>updatedAt := now e\<rparr>) st))))"

text \<open>
  \<open>Task.create(doc)\<close>: the schema's defaults, then the given paths, the \<open>required\<close>
  validator of \<open>title\<close>, the \<open>save\<close> hook (for which the status is modified when the
  document gives one) and the timestamps. The owner is given apart from the other
  paths: it is an ObjectId already.
\<close>

definition create_doc :: "env \<Rightarrow> store \<Rightarrow> body \<Rightarrow> objectId \<Rightarrow> db_error + (task \<times> store)" where
  "create_doc e st b owner =
     (if map_of b ''title'' = None then Inl ValidationError
      else (case cast_fields e b (default_doc e) of
              Inl err \<Rightarrow> Inl err
            | Inr t \<Rightarrow> (let t' = save (map_of b ''status'' \<noteq> None) (now e) (t\<lparr>user := owner\<rparr>)
                        in Inr (t', st @ [t']))))"

section \<open>Task controller (backend/controllers/taskController.js)\<close>

text \<open>
  Every handler takes the store and \<open>req.user\<close>, and returns its response (with the new
  store when it writes). A handler's \<open>catch\<close> answers 500 for whatever the store raises.
\<close>

definition getTask :: "store \<Rightarrow> account \<Rightarrow> string \<Rightarrow> response" where
  "getTask st u s =
     (case findById st s of
        Inl err \<Rightarrow> reply 500 ''Error fetching task'' NoData
      | Inr None \<Rightarrow> reply 404 ''Task not found'' NoData
      | Inr (Some t) \<Rightarrow>
          if user t \<noteq> user_id u then reply 403 ''Not authorized to access this task'' NoData
          else reply 200 [] (TaskData (Some t)))"

text \<open>
  \<open>createTask\<close>: \<open>{...req.body, user: req.user.id}\<close> replaces whatever \<open>user\<close> the body
  holds by the caller's id, which \<open>create_doc\<close> takes as the owner.
\<close>

definition createTask :: "env \<Rightarrow> store \<Rightarrow> account \<Rightarrow> body \<Rightarrow> response \<times> store" where
  "createTask e st u b =
     (case create_doc e st (filter (\<lambda>kv. fst kv \<noteq> ''user'') b) (user_id u) of
        Inl err \<Rightarrow> (reply 500 ''Error creating task'' NoData, st)
      | Inr (t, st') \<Rightarrow> (reply 201 ''Task created successfully'' (TaskData (Some t)), st'))"

definition updateTask :: "env \<Rightarrow> store \<Rightarrow> account \<Rightarrow> string \<Rightarrow> body \<Rightarrow> response \<times> store" where
  "updateTask e st u s b =
     (case findById st s of
        Inl err \<Rightarrow> (reply 500 ''Error updating task'' NoData, st)
      | Inr None \<Rightarrow> (reply 404 ''Task not found'' NoData, st)
      | Inr (Some t) \<Rightarrow>
          if user t \<noteq> user_id u
          then (reply 403 ''Not authorized to update this task'' NoData, st)
          else (case findByIdAndUpdate e st s b of
                  Inl err \<Rightarrow> (reply 500 ''Error updating task'' NoData, st)
                | Inr (t', st') \<Rightarrow> (reply 200 ''Task updated successfully'' (TaskData t'), st')))"

definition deleteTask :: "store \<Rightarrow> account \<Rightarrow> string \<Rightarrow> response \<times> store" where
  "deleteTask st u s =
     (case findById st s of
        Inl err \<Rightarrow> (reply 500 ''Error deleting task'' NoData, st)
      | Inr None \<Rightarrow> (reply 404 ''Task not found'' NoData, st)
      | Inr (Some t) \<Rightarrow>
          if user t \<noteq> user_id u
          then (reply 403 ''Not authorized to delete this task'' NoData, st)
          else (reply 200 ''Task deleted successfully'' NoData, delete_doc (task_id t) st))"

definition toggleTaskStatus :: "env \<Rightarrow> store \<Rightarrow> account \<Rightarrow> string \<Rightarrow> response \<times> store" where
  "toggleTaskStatus e st u s =
     (case findById st s of
        Inl err \<Rightarrow> (reply 500 ''Error toggling task status'' NoData, st)
      | Inr None \<Rightarrow> (reply 404 ''Task not found'' NoData, st)
      | Inr (Some t) \<Rightarrow>
          if user t \<noteq> user_id u
          then (reply 403 ''Not authorized to modify this task'' NoData, st)
          else (let t' = toggleStatus (now e) t
                in (reply 200 (''Task marked as '' @ status_str (status t')) (TaskData (Some t')),
                    replace_doc t' st)))"

definition toggleTaskImportance :: "env \<Rightarrow> store \<Rightarrow> account \<Rightarrow> string \<Rightarrow> response \<times> store" where
  "toggleTaskImportance e st u s =
     (case findById st s of
        Inl err \<Rightarrow> (reply 500 ''Error toggling task importance'' NoData, st)
      | Inr None \<Rightarrow> (reply 404 ''Task not found'' NoData, st)
      | Inr (Some t) \<Rightarrow>
          if user t \<noteq> user_id u
          then (reply 403 ''Not authorized to modify this task'' NoData, st)
          else (let t' = toggleImportant (now e) t
                in (reply 200
                      (if isImportant t' then ''Task marked as important''
                       else ''Task unmarked as important'')
                      (TaskData (Some t')),
                    replace_doc t' st)))"

text \<open>A run of toggle requests on one task by one caller, each at its own time.\<close>

fun toggle_all :: "env list \<Rightarrow> store \<Rightarrow> account \<Rightarrow> string \<Rightarrow> store" where
  "toggle_all [] st u s = st"
| "toggle_all (e # es) st u s = toggle_all es (snd (toggleTaskStatus e st u s)) u s"

subsection \<open>Sorting a query's result\<close>

text \<open>
  \<open>.sort({isImportant: -1, dueDate: 1, createdAt: -1})\<close>. The store compares the values
  of a sort path in its own order of values: first by type, where null comes before
  every boolean and every date, then within the type (\<open>false\<close> before \<open>true\<close>, dates by
  time). Direction 1 is ascending in that order, -1 descending. Documents the
  specification does not tell apart keep the order the collection has them in.
\<close>

datatype bson = BNull | BBool bool | BDate date

fun bson_rank :: "bson \<Rightarrow> nat" where
  "bson_rank BNull = 2"
| "bson_rank (BBool b) = 9"
| "bson_rank (BDate d) = 10"

fun bson_lt :: "bson \<Rightarrow> bson \<Rightarrow> bool" where
  "bson_lt (BBool a) (BBool b) = (\<not> a \<and> b)"
| "bson_lt (BDate a) (BDate b) = (a < b)"
| "bson_lt x y = (bson_rank x < bson_rank y)"

datatype path = IsImportant | DueDate | CreatedAt

fun path_value :: "path \<Rightarrow> task \<Rightarrow> bson" where
  "path_value IsImportant t = BBool (isImportant t)"
| "path_value DueDate t = (case dueDate t of None \<Rightarrow> BNull | Some d \<Rightarrow> BDate d)"
| "path_value CreatedAt t = BDate (createdAt t)"

text \<open>A sort direction: \<open>Asc\<close> is the source's 1, \<open>Desc\<close> its -1.\<close>

datatype direction = Asc | Desc

type_synonym sort_spec = "(path \<times> direction) list"

definition task_sort :: sort_spec where
  "task_sort = [(IsImportant, Desc), (DueDate, Asc), (CreatedAt, Desc)]"

text \<open>\<open>sorts_before sp a b\<close>: the specification puts \<open>a\<close> strictly before \<open>b\<close>.\<close>

fun sorts_before :: "sort_spec \<Rightarrow> task \<Rightarrow> task \<Rightarrow> bool" where
  "sorts_before [] a b = False"
| "sorts_before ((p, dir) # ps) a b =
     (if bson_lt (path_value p a) (path_value p b) then dir = Asc
      else if bson_lt (path_value p b) (path_value p a) then dir = Desc
      else sorts_before ps a b)"

fun insert_doc :: "sort_spec \<Rightarrow> task \<Rightarrow> task list \<Rightarrow> task list" where
  "insert_doc sp t [] = [t]"
| "insert_doc sp t (x # xs) =
     (if sorts_before sp x t then x # insert_doc sp t xs else t # x # xs)"

fun sort_docs :: "sort_spec \<Rightarrow> task list \<Rightarrow> task list" where
  "sort_docs sp [] = []"
| "sort_docs sp (t # ts) = insert_doc sp t (sort_docs sp ts)"

text \<open>
  The order of a task list in words: important tasks first, then by due date with the
  earlier date first, then the later created first. \<open>list_order a b\<close> says that \<open>a\<close> may
  stand before \<open>b\<close>. In \<open>list_order\<close> a task without a due date stands before the tasks
  that have one; in \<open>claimed_list_order\<close>, the order as the specification words it, it
  stands after them.
\<close>

definition list_order :: "task \<Rightarrow> task \<Rightarrow> bool" where
  "list_order a b =
     (if isImportant a \<noteq> isImportant b then isImportant a
      else if dueDate a \<noteq> dueDate b then
        (case (dueDate a, dueDate b) of
           (None, y) \<Rightarrow> True
         | (Some x, None) \<Rightarrow> False
         | (Some x, Some y) \<Rightarrow> x < y)
      else createdAt b \<le> createdAt a)"

definition claimed_list_order :: "task \<Rightarrow> task \<Rightarrow> bool" where
  "claimed_list_order a b =
     (if isImportant a \<noteq> isImportant b then isImportant a
      else if dueDate a \<noteq> dueDate b then
        (case (dueDate a, dueDate b) of
           (None, y) \<Rightarrow> False
         | (Some x, None) \<Rightarrow> True
         | (Some x, Some y) \<Rightarrow> x < y)
      else createdAt b \<le> createdAt a)"

subsection \<open>Numbers\<close>

text \<open>
  A JavaScript number is a binary64 floating-point number; here it is the rational it
  stands for. An arithmetic operation gives the exact result rounded to 53 significant
  bits, to nearest, ties to even. (Counts of documents are far from the overflow and
  subnormal ranges, which are left out.)
\<close>

text \<open>For \<open>q > 0\<close>, the exponent \<open>k\<close> with \<open>2 ^ k \<le> q < 2 ^ (k + 1)\<close>.\<close>

definition binade :: "rat \<Rightarrow> int" where
  "binade q =
     (let (a, b) = quotient_of q;
          k = int (floorlog 2 (nat a)) - int (floorlog 2 (nat b))
      in if 2 powi k \<le> q then k else k - 1)"

definition round_half_even :: "rat \<Rightarrow> int" where
  "round_half_even x =
     (let f = \<lfloor>x\<rfloor>; d = x - of_int f
      in if d < 1 / 2 then f else if 1 / 2 < d then f + 1 else if even f then f else f + 1)"

definition to_double :: "rat \<Rightarrow> rat" where
  "to_double q =
     (if q = 0 then 0
      else (let e = binade \<bar>q\<bar> - 52
            in sgn q * of_int (round_half_even (\<bar>q\<bar> / 2 powi e)) * 2 powi e))"

definition js_div :: "rat \<Rightarrow> rat \<Rightarrow> rat" where
  "js_div x y = to_double (x / y)"

definition js_mul :: "rat \<Rightarrow> rat \<Rightarrow> rat" where
  "js_mul x y = to_double (x * y)"

text \<open>\<open>Math.round\<close>: the nearest integer, a tie going up.\<close>

definition math_round :: "rat \<Rightarrow> int" where
  "math_round x = \<lfloor>x + 1 / 2\<rfloor>"

subsection \<open>List and statistics handlers\<close>

text \<open>JavaScript's truthiness of a value.\<close>

definition truthy :: "jval \<Rightarrow> bool" where
  "truthy v = (case v of JNull \<Rightarrow> False | JBool b \<Rightarrow> b | JNum n \<Rightarrow> n \<noteq> 0 | JStr s \<Rightarrow> s \<noteq> []
     | _ \<Rightarrow> True)"

text \<open>
  A query condition on a string path. The route's \<open>validateQuery\<close> lets only strings
  through; another value the store would have to cast is taken as a \<open>CastError\<close>.
\<close>

definition string_cond :: "jval \<Rightarrow> db_error + (string \<Rightarrow> bool)" where
  "string_cond v = (case v of JStr s \<Rightarrow> Inr (\<lambda>x. x = s) | _ \<Rightarrow> Inl CastError)"

text \<open>The query object \<open>getTasks\<close> builds, as the predicate a document must satisfy.\<close>

definition task_query :: "env \<Rightarrow> objectId \<Rightarrow> body \<Rightarrow> db_error + (task \<Rightarrow> bool)" where
  "task_query e userId q =
     (let by_status =
            (case map_of q ''status'' of
               None \<Rightarrow> Inr (\<lambda>x. True)
             | Some v \<Rightarrow> if truthy v then string_cond v else Inr (\<lambda>x. True));
          by_priority =
            (case map_of q ''priority'' of
               None \<Rightarrow> Inr (\<lambda>x. True)
             | Some v \<Rightarrow> if truthy v then string_cond v else Inr (\<lambda>x. True));
          by_important =
            (case map_of q ''isImportant'' of
               None \<Rightarrow> (\<lambda>t. True)
             | Some v \<Rightarrow> (\<lambda>t. isImportant t = (v = JStr ''true'')));
          by_search =
            (case map_of q ''search'' of
               None \<Rightarrow> Inr (\<lambda>x. True)
             | Some v \<Rightarrow>
                 if truthy v
                 then (case v of
                         JStr p \<Rightarrow> (case regex e p of None \<Rightarrow> Inl MongoServerError | Some m \<Rightarrow> Inr m)
                       | _ \<Rightarrow> Inl CastError)
                 else Inr (\<lambda>x. True))
      in case (by_status, by_priority, by_search) of
           (Inr ps, Inr pp, Inr m) \<Rightarrow>
             Inr (\<lambda>t. user t = userId \<and> ps (status_str (status t))
                    \<and> pp (priority_str (priority t)) \<and> by_important t
                    \<and> (m (title t) \<or> m (description t)))
         | _ \<Rightarrow> Inl CastError)"

definition countDocuments :: "store \<Rightarrow> (task \<Rightarrow> bool) \<Rightarrow> nat" where
  "countDocuments st p = length (filter p st)"

definition getTasks :: "env \<Rightarrow> store \<Rightarrow> account \<Rightarrow> body \<Rightarrow> response" where
  "getTasks e st u q =
     (let userId = user_id u in
      case task_query e userId q of
        Inl err \<Rightarrow> reply 500 ''Error fetching tasks'' NoData
      | Inr matches \<Rightarrow>
          (let tasks = sort_docs task_sort (filter matches st);
               totalTasks = countDocuments st (\<lambda>t. user t = userId);
               completedTasks = countDocuments st (\<lambda>t. user t = userId \<and> status t = Completed);
               pendingTasks = countDocuments st (\<lambda>t. user t = userId \<and> status t = Pending);
               importantTasks = countDocuments st (\<lambda>t. user t = userId \<and> isImportant t)
           in \<lparr>code = 200, message = [], errors = [], count = Some (length tasks),
                data = ListData tasks
                  \<lparr>total = totalTasks, completed = completedTasks, pending = pendingTasks,
                    important = importantTasks\<rparr>\<rparr>))"

text \<open>
  \<open>taskSchema.statics.getUserTasks\<close> (no handler calls it): the same sort, with the
  filters given as an object. The store casts the \<open>isImportant\<close> filter to a boolean.
\<close>

definition cast_bool :: "jval \<Rightarrow> db_error + bool option" where
  "cast_bool v =
     (if v = JBool True \<or> v = JStr ''true'' \<or> v = JNum 1 \<or> v = JStr ''1'' \<or> v = JStr ''yes''
      then Inr (Some True)
      else if v = JBool False \<or> v = JStr ''false'' \<or> v = JNum 0 \<or> v = JStr ''0''
        \<or> v = JStr ''no''
      then Inr (Some False)
      else if v = JNull then Inr None
      else Inl CastError)"

definition getUserTasks :: "store \<Rightarrow> objectId \<Rightarrow> body \<Rightarrow> db_error + task list" where
  "getUserTasks st userId filters =
     (let by_status =
            (case map_of filters ''status'' of
               None \<Rightarrow> Inr (\<lambda>x. True)
             | Some v \<Rightarrow> if truthy v then string_cond v else Inr (\<lambda>x. True));
          by_priority =
            (case map_of filters ''priority'' of
               None \<Rightarrow> Inr (\<lambda>x. True)
             | Some v \<Rightarrow> if truthy v then string_cond v else Inr (\<lambda>x. True));
          by_important =
            (case map_of filters ''isImportant'' of
               None \<Rightarrow> Inr (\<lambda>t. True)
             | Some v \<Rightarrow>
                 (case cast_bool v of
                    Inl err \<Rightarrow> Inl err
                  | Inr None \<Rightarrow> Inr (\<lambda>t. False)
                  | Inr (Some b) \<Rightarrow> Inr (\<lambda>t. isImportant t = b)))
      in case (by_status, by_priority, by_important) of
           (Inr ps, Inr pp, Inr imp) \<Rightarrow>
             Inr (sort_docs task_sort
                    (filter (\<lambda>t. user t = userId \<and> ps (status_str (status t))
                               \<and> pp (priority_str (priority t)) \<and> imp t) st))
         | _ \<Rightarrow> Inl CastError)"

text \<open>\<open>dueDate: {$lt: new Date()}\<close> holds of dates only: a null due date is not less than
  a date.\<close>

definition date_lt :: "date option \<Rightarrow> date \<Rightarrow> bool" where
  "date_lt d n = (case d of None \<Rightarrow> False | Some x \<Rightarrow> x < n)"

definition completion_rate :: "nat \<Rightarrow> nat \<Rightarrow> int" where
  "completion_rate completedTasks totalTasks =
     (if totalTasks > 0
      then math_round (js_mul (js_div (of_nat completedTasks) (of_nat totalTasks)) 100)
      else 0)"

text \<open>The completion rate as the specification words it: \<open>100 \<times> completed / total\<close>
  rounded to the nearest integer, a tie going up as \<open>Math.round\<close> has it.\<close>

definition claimed_completion_rate :: "nat \<Rightarrow> nat \<Rightarrow> int" where
  "claimed_completion_rate c t =
     (if t > 0 then \<lfloor>100 * (of_nat c :: rat) / of_nat t + 1 / 2\<rfloor> else 0)"

definition getTaskStats :: "env \<Rightarrow> store \<Rightarrow> account \<Rightarrow> response" where
  "getTaskStats e st u =
     (let userId = user_id u;
          totalTasks = countDocuments st (\<lambda>t. user t = userId);
          completedTasks = countDocuments st (\<lambda>t. user t = userId \<and> status t = Completed);
          pendingTasks = countDocuments st (\<lambda>t. user t = userId \<and> status t = Pending);
          importantTasks = countDocuments st (\<lambda>t. user t = userId \<and> isImportant t);
          overdueTasks = countDocuments st
            (\<lambda>t. user t = userId \<and> status t = Pending \<and> date_lt (dueDate t) (now e));
          highPriorityTasks = countDocuments st (\<lambda>t. user t = userId \<and> priority t = High);
          mediumPriorityTasks = countDocuments st (\<lambda>t. user t = userId \<and> priority t = Medium);
          lowPriorityTasks = countDocuments st (\<lambda>t. user t = userId \<and> priority t = Low)
      in reply 200 []
           (StatsData
              \<lparr>total = totalTasks, completed = completedTasks, pending = pendingTasks,
                important = importantTasks, overdue = overdueTasks,
                completionRate = completion_rate completedTasks totalTasks,
                high = highPriorityTasks, medium = mediumPriorityTasks,
                low = lowPriorityTasks\<rparr>))"

section \<open>Request validation (backend/utils/validation.js)\<close>

text \<open>
  A Joi object schema is a list of keys, each with the rule of its value, whether it is
  required, and its default. A violation is reported as the key with Joi's error type
  (\<open>string.max\<close>, \<open>date.greater\<close>, ...); the rendered messages are not modelled.
\<close>

datatype rule =
    StringRule nat nat bool
  | ValidRule "string list"
  | DateRule bool bool
  | TagsRule nat nat
  | BoolRule

record field =
  key :: string
  rule :: rule
  required :: bool
  default_value :: "jval option"

type_synonym schema = "field list"

definition optional :: "string \<Rightarrow> rule \<Rightarrow> field" where
  "optional k r = \<lparr>key = k, rule = r, required = False, default_value = None\<rparr>"

text \<open>The four schemas of the task routes, field by field as the source builds them.
  \<open>StringRule mn mx e\<close> is \<open>Joi.string().min(mn).max(mx)\<close>, with \<open>.allow('')\<close> when \<open>e\<close>;
  \<open>DateRule g n\<close> is \<open>Joi.date()\<close>, with \<open>.greater('now')\<close> when \<open>g\<close> and \<open>.allow(null)\<close> when
  \<open>n\<close>; \<open>TagsRule a b\<close> is \<open>Joi.array().items(Joi.string().max(a)).max(b)\<close>.\<close>

definition createTaskSchema :: schema where
  "createTaskSchema =
     [\<lparr>key = ''title'', rule = StringRule 1 100 False, required = True, default_value = None\<rparr>,
      optional ''description'' (StringRule 0 500 True),
      \<lparr>key = ''priority'', rule = ValidRule [''low'', ''medium'', ''high''], required = False,
        default_value = Some (JStr ''medium'')\<rparr>,
      optional ''dueDate'' (DateRule True True),
      optional ''tags'' (TagsRule 20 10),
      \<lparr>key = ''isImportant'', rule = BoolRule, required = False,
        default_value = Some (JBool False)\<rparr>,
      optional ''notes'' (StringRule 0 1000 True)]"

definition updateTaskSchema :: schema where
  "updateTaskSchema =
     [optional ''title'' (StringRule 1 100 False),
      optional ''description'' (StringRule 0 500 True),
      optional ''status'' (ValidRule [''pending'', ''completed'']),
      optional ''priority'' (ValidRule [''low'', ''medium'', ''high'']),
      optional ''dueDate'' (DateRule False True),
      optional ''tags'' (TagsRule 20 10),
      optional ''isImportant'' BoolRule,
      optional ''notes'' (StringRule 0 1000 True)]"

definition taskFilterSchema :: schema where
  "taskFilterSchema =
     [optional ''status'' (ValidRule [''pending'', ''completed'']),
      optional ''priority'' (ValidRule [''low'', ''medium'', ''high'']),
      optional ''isImportant'' BoolRule,
      optional ''search'' (StringRule 0 100 False)]"

subsection \<open>Validating one value\<close>

definition lower_char :: "char \<Rightarrow> char" where
  "lower_char c =
     (let n = (of_char c :: nat) in if 65 \<le> n \<and> n \<le> 90 then char_of (n + 32) else c)"

text \<open>Joi's coercion of a value to a date: a \<open>Date\<close>, a number of milliseconds, or a
  string the date parser accepts.\<close>

definition coerce_date :: "(string \<Rightarrow> date option) \<Rightarrow> jval \<Rightarrow> date option" where
  "coerce_date pd v =
     (case v of JDate d \<Rightarrow> Some d | JNum n \<Rightarrow> Some n | JStr s \<Rightarrow> pd s | _ \<Rightarrow> None)"

fun tag_errors :: "nat \<Rightarrow> jval list \<Rightarrow> string list" where
  "tag_errors mx [] = []"
| "tag_errors mx (JStr s # vs) =
     (if s = [] then [''string.empty''] else if length s > mx then [''string.max''] else [])
     @ tag_errors mx vs"
| "tag_errors mx (v # vs) = ''string.base'' # tag_errors mx vs"

text \<open>The value as validated (and converted), or the error types. The first argument
  is \<open>Date.now()\<close>, the second the date parser.\<close>

definition validate_value ::
  "date \<Rightarrow> (string \<Rightarrow> date option) \<Rightarrow> rule \<Rightarrow> jval \<Rightarrow> string list + jval" where
  "validate_value nw pd r v =
     (case r of
        StringRule mn mx allow_empty \<Rightarrow>
          (case v of
             JStr s \<Rightarrow>
               if s = [] then (if allow_empty then Inr v else Inl [''string.empty''])
               else if length s < mn then Inl [''string.min'']
               else if length s > mx then Inl [''string.max'']
               else Inr v
           | _ \<Rightarrow> Inl [''string.base''])
      | ValidRule vs \<Rightarrow>
          (case v of
             JStr s \<Rightarrow> if s \<in> set vs then Inr v else Inl [''any.only'']
           | _ \<Rightarrow> Inl [''any.only''])
      | DateRule greater_now allow_null \<Rightarrow>
          (if v = JNull then (if allow_null then Inr JNull else Inl [''date.base''])
           else (case coerce_date pd v of
                   None \<Rightarrow> Inl [''date.base'']
                 | Some d \<Rightarrow>
                     if greater_now \<and> \<not> d > nw then Inl [''date.greater'']
                     else Inr (JDate d)))
      | TagsRule item_max mx \<Rightarrow>
          (case v of
             JArr vs \<Rightarrow>
               (let errs = tag_errors item_max vs
                      @ (if length vs > mx then [''array.max''] else [])
                in if errs = [] then Inr v else Inl errs)
           | _ \<Rightarrow> Inl [''array.base''])
      | BoolRule \<Rightarrow>
          (case v of
             JBool b \<Rightarrow> Inr v
           | JStr s \<Rightarrow>
               if map lower_char s = ''true'' then Inr (JBool True)
               else if map lower_char s = ''false'' then Inr (JBool False)
               else Inl [''boolean.base'']
           | _ \<Rightarrow> Inl [''boolean.base'']))"

subsection \<open>Validating an object\<close>

text \<open>
  \<open>schema.validate(obj, {abortEarly: false, stripUnknown: true})\<close>: every key of the
  schema is looked up in the object; all violations are collected; the value holds the
  schema's keys only, so a key the schema does not declare is dropped.
\<close>

definition validate_field ::
  "date \<Rightarrow> (string \<Rightarrow> date option) \<Rightarrow> body \<Rightarrow> field \<Rightarrow> violation list \<times> body" where
  "validate_field nw pd b f =
     (case map_of b (key f) of
        None \<Rightarrow>
          if required f then ([(key f, ''any.required'')], [])
          else (case default_value f of
                  None \<Rightarrow> ([], [])
                | Some d \<Rightarrow> ([], [(key f, d)]))
      | Some v \<Rightarrow>
          (case validate_value nw pd (rule f) v of
             Inl es \<Rightarrow> (map (Pair (key f)) es, [])
           | Inr v' \<Rightarrow> ([], [(key f, v')])))"

definition validate_fields ::
  "date \<Rightarrow> (string \<Rightarrow> date option) \<Rightarrow> schema \<Rightarrow> body \<Rightarrow> violation list \<times> body" where
  "validate_fields nw pd sch b =
     (concat (map (\<lambda>f. fst (validate_field nw pd b f)) sch),
      concat (map (\<lambda>f. snd (validate_field nw pd b f)) sch))"

datatype 'a step = Respond response | Next 'a

text \<open>\<open>validateRequest(schema)\<close> and \<open>validateQuery(schema)\<close>: 400 with the violations, or
  the request goes on with the validated value in place of its body (its query).\<close>

definition validateRequest :: "env \<Rightarrow> schema \<Rightarrow> body \<Rightarrow> body step" where
  "validateRequest e sch b =
     (case validate_fields (now e) (parse_date e) sch b of
        (errs, val) \<Rightarrow>
          if errs \<noteq> []
          then Respond \<lparr>code = 400, message = ''Validation failed'',
                 errors = errs, count = None, data = NoData\<rparr>
          else Next val)"

definition validateQuery :: "env \<Rightarrow> schema \<Rightarrow> body \<Rightarrow> body step" where
  "validateQuery e sch q =
     (case validate_fields (now e) (parse_date e) sch q of
        (errs, val) \<Rightarrow>
          if errs \<noteq> []
          then Respond \<lparr>code = 400, message = ''Invalid query parameters'',
                 errors = errs, count = None, data = NoData\<rparr>
          else Next val)"

section \<open>Authentication middleware (backend/middleware/auth.js)\<close>

text \<open>
  \<open>jwt.verify(token, secret)\<close> is a parameter: it gives the \<open>id\<close> of the decoded payload
  or raises one of the library's errors.
\<close>

datatype jwt_error = JsonWebTokenError | TokenExpiredError | NotBeforeError

type_synonym verifier = "string \<Rightarrow> jwt_error + string"

text \<open>JavaScript's \<open>s.split(' ')\<close>.\<close>

fun split_sp :: "string \<Rightarrow> string list" where
  "split_sp [] = [[]]"
| "split_sp (c # cs) =
     (if c = CHR '' '' then [] # split_sp cs
      else (case split_sp cs of [] \<Rightarrow> [[c]] | p # ps \<Rightarrow> (c # p) # ps))"

text \<open>The token \<open>protect\<close> reads from the \<open>Authorization\<close> header, when it is truthy.\<close>

definition bearer_token :: "string option \<Rightarrow> string option" where
  "bearer_token h =
     (case h of
        None \<Rightarrow> None
      | Some a \<Rightarrow>
          if a \<noteq> [] \<and> take 6 a = ''Bearer''
          then (case split_sp a of
                  x # tk # rest \<Rightarrow> if tk = [] then None else Some tk
                | _ \<Rightarrow> None)
          else None)"

fun find_user :: "objectId \<Rightarrow> account list \<Rightarrow> account option" where
  "find_user i [] = None"
| "find_user i (u # us) = (if user_id u = i then Some u else find_user i us)"

definition findUserById :: "account list \<Rightarrow> string \<Rightarrow> db_error + account option" where
  "findUserById us s =
     (case castObjectId s of None \<Rightarrow> Inl CastError | Some i \<Rightarrow> Inr (find_user i us))"

definition unauthorized :: "string \<Rightarrow> response" where
  "unauthorized m = reply 401 m NoData"

definition protect :: "verifier \<Rightarrow> account list \<Rightarrow> string option \<Rightarrow> account step" where
  "protect verify us h =
     (case bearer_token h of
        None \<Rightarrow> Respond (unauthorized ''Not authorized to access this route. No token provided.'')
      | Some tk \<Rightarrow>
          (case verify tk of
             Inl JsonWebTokenError \<Rightarrow> Respond (unauthorized ''Invalid token. Please log in again.'')
           | Inl TokenExpiredError \<Rightarrow> Respond (unauthorized ''Token expired. Please log in again.'')
           | Inl NotBeforeError \<Rightarrow> Respond (unauthorized ''Not authorized to access this route.'')
           | Inr sub \<Rightarrow>
               (case findUserById us sub of
                  Inl err \<Rightarrow> Respond (unauthorized ''Not authorized to access this route.'')
                | Inr None \<Rightarrow> Respond (unauthorized ''User not found with this token.'')
                | Inr (Some u) \<Rightarrow>
                    if \<not> isActive u then Respond (unauthorized ''User account is deactivated.'')
                    else Next u)))"

section \<open>The request pipeline (backend/server.js, backend/routes/tasks.js)\<close>

datatype route = ListTasks | Stats | GetTask | CreateTask | UpdateTask | DeleteTask
  | ToggleStatus | ToggleImportance

record request =
  route :: route
  authorization :: "string option"
  params_id :: string
  req_body :: body
  req_query :: body
  req_user :: "account option"

text \<open>What the server holds besides the task collection. \<open>hits\<close> is the number of
  requests the rate limiter has counted for the client in the current window before
  this one, \<open>max_requests\<close> its limit (100 unless configured).\<close>

record server =
  server_env :: env
  verify :: verifier
  users :: "account list"
  hits :: nat
  max_requests :: nat

datatype outcome = Done response store | Continue request

type_synonym middleware = "server \<Rightarrow> store \<Rightarrow> request \<Rightarrow> outcome"

datatype stage = RateLimit | TokenVerification | SchemaValidation | Handler

definition limiter :: middleware where
  "limiter sv st rq =
     (if hits sv + 1 > max_requests sv
      then Done (reply 429 ''Too many requests from this IP, please try again later.'' NoData) st
      else Continue rq)"

definition protect_mw :: middleware where
  "protect_mw sv st rq =
     (case protect (verify sv) (users sv) (authorization rq) of
        Respond r \<Rightarrow> Done r st
      | Next u \<Rightarrow> Continue (rq\<lparr>req_user := Some u\<rparr>))"

definition validate_body_mw :: "schema \<Rightarrow> middleware" where
  "validate_body_mw sch sv st rq =
     (case validateRequest (server_env sv) sch (req_body rq) of
        Respond r \<Rightarrow> Done r st
      | Next b \<Rightarrow> Continue (rq\<lparr>req_body := b\<rparr>))"

definition validate_query_mw :: "schema \<Rightarrow> middleware" where
  "validate_query_mw sch sv st rq =
     (case validateQuery (server_env sv) sch (req_query rq) of
        Respond r \<Rightarrow> Done r st
      | Next q \<Rightarrow> Continue (rq\<lparr>req_query := q\<rparr>))"

text \<open>A handler as the last middleware. Behind \<open>protect\<close> a request has a user; without
  one, reading \<open>req.user.id\<close> raises inside the handler's \<open>try\<close>.\<close>

definition handler_mw :: "route \<Rightarrow> middleware" where
  "handler_mw r sv st rq =
     (case req_user rq of
        None \<Rightarrow> Done (reply 500 ''Error'' NoData) st
      | Some u \<Rightarrow>
          (let e = server_env sv; s = params_id rq in
           case r of
             ListTasks \<Rightarrow> Done (getTasks e st u (req_query rq)) st
           | Stats \<Rightarrow> Done (getTaskStats e st u) st
           | GetTask \<Rightarrow> Done (getTask st u s) st
           | CreateTask \<Rightarrow> (case createTask e st u (req_body rq) of (x, st') \<Rightarrow> Done x st')
           | UpdateTask \<Rightarrow> (case updateTask e st u s (req_body rq) of (x, st') \<Rightarrow> Done x st')
           | DeleteTask \<Rightarrow> (case deleteTask st u s of (x, st') \<Rightarrow> Done x st')
           | ToggleStatus \<Rightarrow> (case toggleTaskStatus e st u s of (x, st') \<Rightarrow> Done x st')
           | ToggleImportance \<Rightarrow>
               (case toggleTaskImportance e st u s of (x, st') \<Rightarrow> Done x st')))"

text \<open>The middleware of each route of \<open>routes/tasks.js\<close>, in the order it is given.\<close>

fun route_chain :: "route \<Rightarrow> (stage \<times> middleware) list" where
  "route_chain ListTasks =
     [(SchemaValidation, validate_query_mw taskFilterSchema), (Handler, handler_mw ListTasks)]"
| "route_chain CreateTask =
     [(SchemaValidation, validate_body_mw createTaskSchema), (Handler, handler_mw CreateTask)]"
| "route_chain UpdateTask =
     [(SchemaValidation, validate_body_mw updateTaskSchema), (Handler, handler_mw UpdateTask)]"
| "route_chain r = [(Handler, handler_mw r)]"

text \<open>
  \<open>server.js\<close> mounts the limiter on \<open>/api/\<close> before the routers, and the task router
  starts with \<open>router.use(protect)\<close>. (The security headers, CORS, logging and body
  parsing middleware of \<open>server.js\<close> pass every request on whose body parses; they are
  left out.)
\<close>

definition app_chain :: "route \<Rightarrow> (stage \<times> middleware) list" where
  "app_chain r = (RateLimit, limiter) # (TokenVerification, protect_mw) # route_chain r"

text \<open>Express runs a chain until a middleware responds; the stages it ran are kept. A
  request no middleware answers falls through to the server's 404 handler.\<close>

fun run :: "(stage \<times> middleware) list \<Rightarrow> server \<Rightarrow> store \<Rightarrow> request
    \<Rightarrow> stage list \<times> response \<times> store" where
  "run [] sv st rq = ([], reply 404 ''Route not found'' NoData, st)"
| "run ((n, m) # ms) sv st rq =
     (case m sv st rq of
        Done r st' \<Rightarrow> ([n], r, st')
      | Continue rq' \<Rightarrow> (case run ms sv st rq' of (tr, r, st') \<Rightarrow> (n # tr, r, st')))"

definition app :: "server \<Rightarrow> store \<Rightarrow> request \<Rightarrow> stage list \<times> response \<times> store" where
  "app sv st rq = run (app_chain (route rq)) sv st rq"

text \<open>The order of the stages as the specification words it (the ownership check is the
  first thing a handler does with the task it found).\<close>

definition claimed_order :: "stage list" where
  "claimed_order = [RateLimit, SchemaValidation, TokenVerification, Handler]"

section \<open>Sample data\<close>

definition sample_env :: env where
  "sample_env = \<lparr>now = 1000, new_id = 2, parse_date = (\<lambda>s. None),
     regex = (\<lambda>p. Some (\<lambda>s. True))\<rparr>"

definition ann :: account where
  "ann = \<lparr>user_id = 7, name = ''Ann'', email = ''ann@x.com'', isActive = True\<rparr>"

definition bob :: account where
  "bob = \<lparr>user_id = 8, name = ''Bob'', email = ''bob@x.com'', isActive = True\<rparr>"

definition milk :: task where
  "milk = \<lparr>task_id = 1, title = ''Buy milk'', description = [], status = Pending,
      priority = High, dueDate = None, completedAt = None, user = 7, tags = [],
      isImportant = False, task_notes = None, createdAt = 10, updatedAt = 10\<rparr>"

definition milk_id :: string where
  "milk_id = ''000000000000000000000001''"

definition sample_verify :: verifier where
  "sample_verify tk =
     (if tk = ''good'' then Inr ''000000000000000000000007''
      else if tk = ''bobs'' then Inr ''000000000000000000000008''
      else if tk = ''old'' then Inl TokenExpiredError
      else Inl JsonWebTokenError)"

definition sample_server :: server where
  "sample_server =
     \<lparr>server_env = sample_env, verify = sample_verify, users = [ann, bob], hits = 0,
      max_requests = 100\<rparr>"

definition tea_request :: request where
  "tea_request =
     \<lparr>route = CreateTask, authorization = Some ''Bearer good'', params_id = [],
      req_body = [(''title'', JStr ''Tea''), (''user'', JStr ''000000000000000000000008'')],
      req_query = [], req_user = None\<rparr>"

definition tea :: task where
  "tea = \<lparr>task_id = 2, title = ''Tea'', description = [], status = Pending,
      priority = Medium, dueDate = None, completedAt = None, user = 7, tags = [],
      isImportant = False, task_notes = None, createdAt = 1000, updatedAt = 1000\<rparr>"

definition anonymous_request :: request where
  "anonymous_request =
     \<lparr>route = CreateTask, authorization = None, params_id = [],
      req_body = [(''title'', JStr [])], req_query = [], req_user = None\<rparr>"

definition bob_update_request :: request where
  "bob_update_request =
     \<lparr>route = UpdateTask, authorization = Some ''Bearer bobs'', params_id = milk_id,
      req_body = [(''status'', JStr ''completed'')], req_query = [], req_user = None\<rparr>"

definition bob_bad_update_request :: request where
  "bob_bad_update_request =
     \<lparr>route = UpdateTask, authorization = Some ''Bearer bobs'', params_id = milk_id,
      req_body = [(''title'', JStr [])], req_query = [], req_user = None\<rparr>"

definition rent :: task where
  "rent = \<lparr>task_id = 3, title = ''Pay rent'', description = [], status = Completed,
      priority = Medium, dueDate = Some 5000, completedAt = Some 900, user = 7, tags = [],
      isImportant = False, task_notes = None, createdAt = 20, updatedAt = 900\<rparr>"

text \<open>Forty tasks of one user, the first twenty-three of them completed.\<close>

definition forty_tasks :: store where
  "forty_tasks =
     map (\<lambda>i. milk\<lparr>task_id := i, status := (if i < 23 then Completed else Pending),
                     completedAt := (if i < 23 then Some 900 else None)\<rparr>) [0..<40]"

section \<open>Properties\<close>

subsection \<open>The store\<close>

lemma find_doc_task_id: "find_doc i st = Some t \<Longrightarrow> task_id t = i"
  by (induction st) (auto split: if_splits)

lemma find_doc_replace_doc:
  "find_doc i st = Some t \<Longrightarrow> task_id t' = i \<Longrightarrow> find_doc i (replace_doc t' st) = Some t'"
  by (induction st) auto

lemma find_doc_replace_doc_other:
  "task_id t' \<noteq> i \<Longrightarrow> find_doc i (replace_doc t' st) = find_doc i st"
  by (induction st) auto

lemma castObjectId_milk_id: "castObjectId milk_id = Some 1"
  by (simp add: castObjectId_def milk_id_def hex_digit_def)

lemma castObjectId_abc: "castObjectId ''abc'' = None"
  by (simp add: castObjectId_def)

subsection \<open>Status toggle\<close>

lemma toggleStatus_status:
  "status (toggleStatus d t) = (if status t = Pending then Completed else Pending)"
  by (simp add: toggleStatus_def save_def pre_save_def Let_def)

lemma toggleStatus_consistent: "completion_consistent (toggleStatus d t)"
  by (simp add: toggleStatus_def save_def pre_save_def Let_def completion_consistent_def)

lemma toggleStatus_frame:
  "task_id (toggleStatus d t) = task_id t \<and> user (toggleStatus d t) = user t"
  by (simp add: toggleStatus_def save_def pre_save_def Let_def)

lemma toggleStatus_twice: "status (toggleStatus d2 (toggleStatus d1 t)) = status t"
  by (cases "status t") (simp_all add: toggleStatus_status)

lemma toggleTaskStatus_owner:
  assumes "castObjectId s = Some i" and "find_doc i st = Some t" and "user t = user_id u"
  shows "toggleTaskStatus e st u s =
    (reply 200 (''Task marked as '' @ status_str (status (toggleStatus (now e) t)))
       (TaskData (Some (toggleStatus (now e) t))),
     replace_doc (toggleStatus (now e) t) st)"
  using assms by (simp add: toggleTaskStatus_def findById_def Let_def)

lemma toggle_all_find_doc:
  assumes "castObjectId s = Some i" and "find_doc i st = Some t" and "user t = user_id u"
  shows "find_doc i (toggle_all es st u s) = Some (foldl (\<lambda>x e. toggleStatus (now e) x) t es)"
  using assms
proof (induction es arbitrary: st t)
  case Nil
  then show ?case by simp
next
  case (Cons e es)
  let ?t = "toggleStatus (now e) t"
  have id: "task_id ?t = i"
    using Cons.prems(2) by (simp add: toggleStatus_frame find_doc_task_id)
  have step: "snd (toggleTaskStatus e st u s) = replace_doc ?t st"
    using Cons.prems by (simp add: toggleTaskStatus_owner)
  have found: "find_doc i (replace_doc ?t st) = Some ?t"
    using Cons.prems(2) id by (rule find_doc_replace_doc)
  have owner: "user ?t = user_id u"
    using Cons.prems(3) by (simp add: toggleStatus_frame)
  show ?case
    using Cons.IH [OF Cons.prems(1) found owner] by (simp add: step)
qed

lemma foldl_toggle_consistent:
  "completion_consistent (foldl (\<lambda>x e. toggleStatus (now e) x) (toggleStatus d t) es)"
  by (induction es arbitrary: d t) (simp_all add: toggleStatus_consistent)

text \<open>
  C4. A task toggled twice by its owner has its original status again, and after any
  non-empty run of toggles its \<open>completedAt\<close> is non-null exactly when its status is
  completed, whatever the task was before.
\<close>

theorem toggle_twice_restores_status:
  assumes "castObjectId s = Some i" and "find_doc i st = Some t" and "user t = user_id u"
  shows "map_option status (find_doc i (toggle_all [e1, e2] st u s)) = Some (status t)
    \<and> map_option completion_consistent (find_doc i (toggle_all (e # es) st u s)) = Some True"
proof -
  have "find_doc i (toggle_all [e1, e2] st u s)
      = Some (toggleStatus (now e2) (toggleStatus (now e1) t))"
    using toggle_all_find_doc [OF assms, of "[e1, e2]"] by simp
  moreover have "find_doc i (toggle_all (e # es) st u s)
      = Some (foldl (\<lambda>x e. toggleStatus (now e) x) (toggleStatus (now e) t) es)"
    using toggle_all_find_doc [OF assms, of "e # es"] by simp
  ultimately show ?thesis
    by (simp add: toggleStatus_twice foldl_toggle_consistent)
qed

theorem toggle_twice_restores_status_witness:
  "castObjectId milk_id = Some 1 \<and> find_doc 1 [milk] = Some milk \<and> user milk = user_id ann
   \<and> map_option status (find_doc 1 (toggle_all [sample_env, sample_env] [milk] ann milk_id))
       = Some Pending
   \<and> map_option completion_consistent
       (find_doc 1 (toggle_all [sample_env, sample_env, sample_env] [milk] ann milk_id))
       = Some True"
proof -
  have a: "castObjectId milk_id = Some 1" by (rule castObjectId_milk_id)
  have b: "find_doc 1 [milk] = Some milk" by (simp add: milk_def)
  have c: "user milk = user_id ann" by (simp add: milk_def ann_def)
  have d: "status milk = Pending" by (simp add: milk_def)
  show ?thesis
    using a b c d
      toggle_twice_restores_status [OF a b c, of sample_env sample_env sample_env
        "[sample_env, sample_env]"]
    by simp
qed

subsection \<open>Full update\<close>

text \<open>
  C2. A PUT that sets the status of a pending task to completed stores the new status
  and leaves \<open>completedAt\<close> null: the update goes through \<open>findByIdAndUpdate\<close>, and the
  \<open>save\<close> hook that stamps the completion time does not run.
\<close>

theorem update_to_completed_leaves_completedAt_null:
  "updateTask sample_env [milk] ann milk_id [(''status'', JStr ''completed'')] =
     (reply 200 ''Task updated successfully''
        (TaskData (Some (milk\<lparr>status := Completed, updatedAt := 1000\<rparr>))),
      [milk\<lparr>status := Completed, updatedAt := 1000\<rparr>])
   \<and> \<not> completion_consistent (milk\<lparr>status := Completed, updatedAt := 1000\<rparr>)"
  by (simp add: updateTask_def findById_def findByIdAndUpdate_def castObjectId_milk_id
      cast_field_def milk_def ann_def sample_env_def completion_consistent_def)

subsection \<open>Ownership and missing tasks\<close>

lemma foreign_task_is_403:
  assumes "castObjectId s = Some i" and "find_doc i st = Some t" and "user t \<noteq> user_id u"
  shows "code (getTask st u s) = 403"
    and "code (fst (updateTask e st u s b)) = 403 \<and> snd (updateTask e st u s b) = st"
    and "code (fst (deleteTask st u s)) = 403 \<and> snd (deleteTask st u s) = st"
    and "code (fst (toggleTaskStatus e st u s)) = 403 \<and> snd (toggleTaskStatus e st u s) = st"
    and "code (fst (toggleTaskImportance e st u s)) = 403
      \<and> snd (toggleTaskImportance e st u s) = st"
  using assms
  by (simp_all add: getTask_def updateTask_def deleteTask_def toggleTaskStatus_def
      toggleTaskImportance_def findById_def reply_def)

lemma absent_task_is_404:
  assumes "castObjectId s = Some i" and "find_doc i st = None"
  shows "code (getTask st u s) = 404"
    and "code (fst (updateTask e st u s b)) = 404 \<and> snd (updateTask e st u s b) = st"
    and "code (fst (deleteTask st u s)) = 404 \<and> snd (deleteTask st u s) = st"
    and "code (fst (toggleTaskStatus e st u s)) = 404 \<and> snd (toggleTaskStatus e st u s) = st"
    and "code (fst (toggleTaskImportance e st u s)) = 404
      \<and> snd (toggleTaskImportance e st u s) = st"
  using assms
  by (simp_all add: getTask_def updateTask_def deleteTask_def toggleTaskStatus_def
      toggleTaskImportance_def findById_def reply_def)

text \<open>
  C5. An id that is not an ObjectId names no task, and every handler answers 500 for
  it: \<open>findById\<close> raises \<open>CastError\<close>, which the handler's own \<open>catch\<close> turns into 500.
\<close>

theorem malformed_id_is_500:
  "code (getTask [milk] ann ''abc'') = 500
   \<and> code (fst (updateTask sample_env [milk] ann ''abc'' [])) = 500
   \<and> code (fst (deleteTask [milk] ann ''abc'')) = 500
   \<and> code (fst (toggleTaskStatus sample_env [milk] ann ''abc'')) = 500"
  by (simp add: getTask_def updateTask_def deleteTask_def toggleTaskStatus_def findById_def
      castObjectId_abc reply_def)

subsection \<open>Validation, ownership and due dates\<close>


lemma validate_field_key:
  "(k, v) \<in> set (snd (validate_field nw pd b f)) \<Longrightarrow> k = key f"
  by (auto simp: validate_field_def split: option.splits sum.splits if_splits)

lemma validate_fields_key:
  "(k, v) \<in> set (snd (validate_fields nw pd sch b)) \<Longrightarrow> k \<in> key ` set sch"
  by (auto simp: validate_fields_def dest: validate_field_key)

lemma validate_fields_keys:
  "fst ` set (snd (validate_fields nw pd sch b)) \<subseteq> key ` set sch"
  using validate_fields_key by fastforce

lemma create_schema_keys:
  "key ` set createTaskSchema =
     {''title'', ''description'', ''priority'', ''dueDate'', ''tags'', ''isImportant'', ''notes''}"
  by (simp add: createTaskSchema_def optional_def)

lemma update_schema_keys:
  "key ` set updateTaskSchema =
     {''title'', ''description'', ''status'', ''priority'', ''dueDate'', ''tags'', ''isImportant'', ''notes''}"
  by (simp add: updateTaskSchema_def optional_def)

lemma validateRequest_keys:
  assumes "validateRequest e sch b = Next b'"
  shows "fst ` set b' \<subseteq> key ` set sch"
proof -
  have "b' = snd (validate_fields (now e) (parse_date e) sch b)"
    using assms by (auto simp: validateRequest_def split: prod.splits if_splits)
  then show ?thesis by (simp add: validate_fields_keys)
qed

lemma cast_field_frame:
  assumes "cast_field e k v t = Inr t'"
  shows "task_id t' = task_id t \<and> createdAt t' = createdAt t \<and> (k \<noteq> ''user'' \<longrightarrow> user t' = user t)"
  using assms
  by (auto simp: cast_field_def split: if_splits jval.splits sum.splits option.splits)

lemma cast_fields_frame:
  assumes "cast_fields e b t = Inr t'" and "''user'' \<notin> fst ` set b"
  shows "task_id t' = task_id t \<and> user t' = user t"
  using assms
proof (induction b arbitrary: t)
  case Nil
  then show ?case by simp
next
  case (Cons kv b)
  obtain k v where kv: "kv = (k, v)" by (cases kv)
  from Cons.prems obtain t1 where
    1: "cast_field e k v t = Inr t1" and 2: "cast_fields e b t1 = Inr t'"
    by (auto simp: kv split: sum.splits)
  have "k \<noteq> ''user''" using Cons.prems(2) by (auto simp: kv)
  with cast_field_frame [OF 1] have "task_id t1 = task_id t \<and> user t1 = user t" by simp
  moreover have "task_id t' = task_id t1 \<and> user t' = user t1"
    using Cons.IH [OF 2] Cons.prems(2) by simp
  ultimately show ?case by simp
qed

lemma find_doc_None: "(find_doc i st = None) = (i \<notin> task_id ` set st)"
  by (induction st) auto

lemma find_doc_append:
  "find_doc i st = Some t \<Longrightarrow> find_doc i (st @ st2) = Some t"
  by (induction st) auto

lemma find_doc_Some_mem: "find_doc i st = Some t \<Longrightarrow> i \<in> task_id ` set st"
  by (induction st) (auto split: if_splits)

lemma find_doc_delete_doc:
  "distinct (map task_id st) \<Longrightarrow> find_doc i (delete_doc j st) = Some t \<Longrightarrow> find_doc i st = Some t"
  by (induction st) (auto split: if_splits dest: find_doc_Some_mem)

lemma replace_doc_owner:
  assumes "find_doc j st = Some d" and "task_id d' = j" and "user d' = user d"
    and "find_doc i st = Some t" and "find_doc i (replace_doc d' st) = Some t'"
  shows "user t' = user t"
proof (cases "i = j")
  case True
  then show ?thesis using assms by (simp add: find_doc_replace_doc)
next
  case False
  then show ?thesis using assms by (simp add: find_doc_replace_doc_other)
qed

lemma updateTask_owner:
  assumes "''user'' \<notin> fst ` set b" and "find_doc i st = Some t"
    and "find_doc i (snd (updateTask e st u s b)) = Some t'"
  shows "user t' = user t"
proof (cases "\<exists>j d d'. castObjectId s = Some j \<and> find_doc j st = Some d \<and> user d = user_id u
    \<and> cast_fields e b d = Inr d'")
  case True
  then obtain j d d' where j: "castObjectId s = Some j" and d: "find_doc j st = Some d"
    and o: "user d = user_id u" and c: "cast_fields e b d = Inr d'" by blast
  let ?d = "d'\<lparr>updatedAt := now e\<rparr>"
  have st': "snd (updateTask e st u s b) = replace_doc ?d st"
    using j d o c by (simp add: updateTask_def findById_def findByIdAndUpdate_def)
  have fr: "task_id ?d = j \<and> user ?d = user d"
    using cast_fields_frame [OF c assms(1)] find_doc_task_id [OF d] by simp
  show ?thesis
    using replace_doc_owner [OF d _ _ assms(2), of ?d t'] fr assms(3) st' by simp
next
  case False
  then have "snd (updateTask e st u s b) = st"
    by (auto simp: updateTask_def findById_def findByIdAndUpdate_def
        split: option.splits sum.splits)
  then show ?thesis using assms by simp
qed

lemma save_frame: "task_id (save m d t) = task_id t \<and> user (save m d t) = user t"
  by (simp add: save_def pre_save_def Let_def)

lemma toggleTaskStatus_keeps_owner:
  assumes "find_doc i st = Some t" and "find_doc i (snd (toggleTaskStatus e st u s)) = Some t'"
  shows "user t' = user t"
proof (cases "\<exists>j d. castObjectId s = Some j \<and> find_doc j st = Some d \<and> user d = user_id u")
  case True
  then obtain j d where j: "castObjectId s = Some j" and d: "find_doc j st = Some d"
    and o: "user d = user_id u" by blast
  have st': "snd (toggleTaskStatus e st u s) = replace_doc (toggleStatus (now e) d) st"
    using j d o by (simp add: toggleTaskStatus_owner)
  show ?thesis
    using replace_doc_owner [OF d _ _ assms(1), of "toggleStatus (now e) d" t']
      toggleStatus_frame [of "now e" d] find_doc_task_id [OF d] assms(2) st' by simp
next
  case False
  then have "snd (toggleTaskStatus e st u s) = st"
    by (auto simp: toggleTaskStatus_def findById_def split: option.splits)
  then show ?thesis using assms by simp
qed

lemma toggleTaskImportance_keeps_owner:
  assumes "find_doc i st = Some t"
    and "find_doc i (snd (toggleTaskImportance e st u s)) = Some t'"
  shows "user t' = user t"
proof (cases "\<exists>j d. castObjectId s = Some j \<and> find_doc j st = Some d \<and> user d = user_id u")
  case True
  then obtain j d where j: "castObjectId s = Some j" and d: "find_doc j st = Some d"
    and o: "user d = user_id u" by blast
  have st': "snd (toggleTaskImportance e st u s) = replace_doc (toggleImportant (now e) d) st"
    using j d o by (simp add: toggleTaskImportance_def findById_def Let_def)
  have fr: "task_id (toggleImportant (now e) d) = j \<and> user (toggleImportant (now e) d) = user d"
    using find_doc_task_id [OF d] by (simp add: toggleImportant_def save_frame)
  show ?thesis
    using replace_doc_owner [OF d _ _ assms(1), of "toggleImportant (now e) d" t']
      fr assms(2) st' by simp
next
  case False
  then have "snd (toggleTaskImportance e st u s) = st"
    by (auto simp: toggleTaskImportance_def findById_def split: option.splits)
  then show ?thesis using assms by simp
qed

lemma deleteTask_keeps_owner:
  assumes "distinct (map task_id st)" and "find_doc i st = Some t"
    and "find_doc i (snd (deleteTask st u s)) = Some t'"
  shows "user t' = user t"
proof -
  have "snd (deleteTask st u s) = st \<or> (\<exists>j. snd (deleteTask st u s) = delete_doc j st)"
    by (auto simp: deleteTask_def findById_def split: option.splits)
  then show ?thesis
    using assms find_doc_delete_doc [OF assms(1)] by auto
qed

lemma createTask_result:
  "createTask e st u b = (r, st') \<Longrightarrow>
     (code r = 500 \<and> st' = st)
     \<or> (\<exists>t. code r = 201 \<and> data r = TaskData (Some t) \<and> user t = user_id u \<and> st' = st @ [t])"
  by (auto simp: createTask_def create_doc_def reply_def save_frame Let_def
      split: sum.splits if_splits)

lemma validate_field_violation:
  "((k, c) \<in> set (fst (validate_field nw pd b f))) =
     (key f = k \<and>
        (case map_of b k of
           None \<Rightarrow> required f \<and> c = ''any.required''
         | Some v \<Rightarrow> (case validate_value nw pd (rule f) v of Inl es \<Rightarrow> c \<in> set es | Inr x \<Rightarrow> False)))"
  by (auto simp: validate_field_def split: option.splits sum.splits if_splits)

lemma validate_fields_violation:
  "((k, c) \<in> set (fst (validate_fields nw pd sch b))) =
     (\<exists>f \<in> set sch. key f = k \<and>
        (case map_of b k of
           None \<Rightarrow> required f \<and> c = ''any.required''
         | Some v \<Rightarrow> (case validate_value nw pd (rule f) v of Inl es \<Rightarrow> c \<in> set es | Inr x \<Rightarrow> False)))"
  by (simp add: validate_fields_def validate_field_violation)

lemma dueDate_field_create:
  "(\<exists>f \<in> set createTaskSchema. key f = ''dueDate'' \<and> P f)
     = P (optional ''dueDate'' (DateRule True True))"
  by (simp add: createTaskSchema_def optional_def)

lemma dueDate_field_update:
  "(\<exists>f \<in> set updateTaskSchema. key f = ''dueDate'' \<and> P f)
     = P (optional ''dueDate'' (DateRule False True))"
  by (simp add: updateTaskSchema_def optional_def)

lemma validate_date_value:
  assumes "coerce_date pd v = Some d"
  shows "validate_value nw pd (DateRule g n) v =
     (if g \<and> \<not> nw < d then Inl [''date.greater''] else Inr (JDate d))"
proof -
  have "v \<noteq> JNull" using assms by (auto simp: coerce_date_def)
  then show ?thesis using assms by (simp add: validate_value_def)
qed

lemma create_dueDate_violation:
  assumes "map_of b ''dueDate'' = Some v" and "coerce_date pd v = Some d"
  shows "((''dueDate'', c) \<in> set (fst (validate_fields nw pd createTaskSchema b)))
    = (d \<le> nw \<and> c = ''date.greater'')"
  unfolding validate_fields_violation dueDate_field_create
  using assms by (auto simp: optional_def validate_date_value)

lemma update_dueDate_violation:
  assumes "map_of b ''dueDate'' = Some v" and "coerce_date pd v = Some d"
  shows "(''dueDate'', c) \<notin> set (fst (validate_fields nw pd updateTaskSchema b))"
  unfolding validate_fields_violation dueDate_field_update
  using assms by (auto simp: optional_def validate_date_value)

lemma update_only_dueDate:
  assumes "coerce_date (parse_date e) v = Some d"
  shows "validateRequest e updateTaskSchema [(''dueDate'', v)] = Next [(''dueDate'', JDate d)]"
  using assms
  by (simp add: validateRequest_def validate_fields_def validate_field_def updateTaskSchema_def
      optional_def validate_date_value)

lemma app_unfold:
  "app sv st rq =
     (if hits sv + 1 > max_requests sv
      then ([RateLimit],
            reply 429 ''Too many requests from this IP, please try again later.'' NoData, st)
      else (case protect (verify sv) (users sv) (authorization rq) of
              Respond r \<Rightarrow> ([RateLimit, TokenVerification], r, st)
            | Next u \<Rightarrow>
                (case run (route_chain (route rq)) sv st (rq\<lparr>req_user := Some u\<rparr>) of
                   (tr, r, st') \<Rightarrow> (RateLimit # TokenVerification # tr, r, st'))))"
  by (simp add: app_def app_chain_def limiter_def protect_mw_def split: step.splits prod.splits)

lemma validateRequest_no_user:
  assumes "validateRequest e sch b = Next b'" and "''user'' \<notin> key ` set sch"
  shows "''user'' \<notin> fst ` set b'"
  using validateRequest_keys [OF assms(1)] assms(2) by blast

lemma user_not_in_schemas:
  "''user'' \<notin> key ` set createTaskSchema" "''user'' \<notin> key ` set updateTaskSchema"
  by (simp_all add: create_schema_keys update_schema_keys)

lemma route_keeps_owner:
  assumes "distinct (map task_id st)" and "run (route_chain r) sv st rq = (tr, x, st')"
    and "req_user rq = Some u" and "find_doc i st = Some t" and "find_doc i st' = Some t'"
  shows "user t' = user t"
proof (cases r)
  case ListTasks
  then have "st' = st"
    using assms(2,3)
    by (auto simp: validate_query_mw_def handler_mw_def split: step.splits)
  then show ?thesis using assms by simp
next
  case Stats
  then have "st' = st"
    using assms(2,3) by (auto simp: handler_mw_def)
  then show ?thesis using assms by simp
next
  case GetTask
  then have "st' = st"
    using assms(2,3) by (auto simp: handler_mw_def)
  then show ?thesis using assms by simp
next
  case CreateTask
  then have "st' = st \<or> (\<exists>b y. createTask (server_env sv) st u b = (y, st'))"
    using assms(2,3)
    by (auto simp: validate_body_mw_def handler_mw_def split: step.splits prod.splits)
  then have "st' = st \<or> (\<exists>d. st' = st @ [d])"
    using createTask_result by blast
  then show ?thesis using assms(4,5) by (auto simp: find_doc_append)
next
  case UpdateTask
  show ?thesis
  proof (cases "validateRequest (server_env sv) updateTaskSchema (req_body rq)")
    case (Respond y)
    then have "st' = st"
      using assms(2) UpdateTask by (simp add: validate_body_mw_def)
    then show ?thesis using assms by simp
  next
    case (Next b)
    have nu: "''user'' \<notin> fst ` set b"
      using validateRequest_no_user [OF Next user_not_in_schemas(2)] .
    have "st' = snd (updateTask (server_env sv) st u (params_id rq) b)"
      using assms(2,3) UpdateTask Next
      by (auto simp: validate_body_mw_def handler_mw_def split: prod.splits)
    then show ?thesis using assms(4,5) updateTask_owner [OF nu] by simp
  qed
next
  case DeleteTask
  then have "st' = snd (deleteTask st u (params_id rq))"
    using assms(2,3) by (auto simp: handler_mw_def split: prod.splits)
  then show ?thesis using assms deleteTask_keeps_owner by simp
next
  case ToggleStatus
  then have "st' = snd (toggleTaskStatus (server_env sv) st u (params_id rq))"
    using assms(2,3) by (auto simp: handler_mw_def split: prod.splits)
  then show ?thesis using assms toggleTaskStatus_keeps_owner by simp
next
  case ToggleImportance
  then have "st' = snd (toggleTaskImportance (server_env sv) st u (params_id rq))"
    using assms(2,3) by (auto simp: handler_mw_def split: prod.splits)
  then show ?thesis using assms toggleTaskImportance_keeps_owner by simp
qed

lemma app_keeps_owner:
  assumes "distinct (map task_id st)" and "app sv st rq = (tr, r, st')"
    and "find_doc i st = Some t" and "find_doc i st' = Some t'"
  shows "user t' = user t"
proof (cases "\<exists>u tr2. protect (verify sv) (users sv) (authorization rq) = Next u
    \<and> run (route_chain (route rq)) sv st (rq\<lparr>req_user := Some u\<rparr>) = (tr2, r, st')")
  case True
  then obtain u tr2 where
    "run (route_chain (route rq)) sv st (rq\<lparr>req_user := Some u\<rparr>) = (tr2, r, st')" by blast
  from route_keeps_owner [OF assms(1) this _ assms(3,4)] show ?thesis by simp
next
  case False
  then have "st' = st"
    using assms(2) by (auto simp: app_unfold split: if_splits step.splits prod.splits)
  then show ?thesis using assms by simp
qed

lemma app_create:
  assumes "app sv st rq = (tr, r, st')" and "route rq = CreateTask" and "code r = 201"
  shows "\<exists>u t. protect (verify sv) (users sv) (authorization rq) = Next u
    \<and> data r = TaskData (Some t) \<and> user t = user_id u \<and> st' = st @ [t]"
proof -
  from assms obtain u where u: "protect (verify sv) (users sv) (authorization rq) = Next u"
    by (auto simp: app_unfold reply_def unauthorized_def protect_def
        split: if_splits step.splits prod.splits option.splits sum.splits jwt_error.splits)
  then obtain b where "createTask (server_env sv) st u b = (r, st')"
    using assms
    by (auto simp: app_unfold validate_body_mw_def handler_mw_def validateRequest_def reply_def
        split: if_splits step.splits prod.splits)
  from createTask_result [OF this] assms(3) u show ?thesis by auto
qed

lemma castObjectId_ann: "castObjectId ''000000000000000000000007'' = Some 7"
  by (simp add: castObjectId_def hex_digit_def)

lemma protect_good: "protect sample_verify [ann, bob] (Some ''Bearer good'') = Next ann"
  by (simp add: protect_def bearer_token_def sample_verify_def findUserById_def
      castObjectId_ann ann_def)

lemma validate_tea:
  "validateRequest sample_env createTaskSchema
     [(''title'', JStr ''Tea''), (''user'', JStr ''000000000000000000000008'')]
   = Next [(''title'', JStr ''Tea''), (''priority'', JStr ''medium''), (''isImportant'', JBool False)]"
  by (simp add: validateRequest_def validate_fields_def validate_field_def createTaskSchema_def
      optional_def validate_value_def)

lemma trim_Tea: "trim ''Tea'' = ''Tea''"
  by (simp add: trim_def is_ws_def)

lemma create_tea:
  "createTask sample_env [milk] ann
     [(''title'', JStr ''Tea''), (''priority'', JStr ''medium''), (''isImportant'', JBool False)]
   = (reply 201 ''Task created successfully'' (TaskData (Some tea)), [milk, tea])"
  by (simp add: createTask_def create_doc_def cast_field_def default_doc_def trim_Tea
      save_def pre_save_def sample_env_def ann_def tea_def Let_def)

lemma app_tea:
  "app sample_server [milk] tea_request =
     ([RateLimit, TokenVerification, SchemaValidation, Handler],
      reply 201 ''Task created successfully'' (TaskData (Some tea)), [milk, tea])"
  by (simp add: app_unfold sample_server_def tea_request_def protect_good validate_body_mw_def
      validate_tea handler_mw_def create_tea)

text \<open>
  C8. The value validation hands on holds no \<open>user\<close> key, for the create and the
  update schema alike; a task that is created belongs to the authenticated caller; and
  whatever the request, a task that is in the store before and after it has the owner
  it had.
\<close>

theorem owner_is_caller_and_never_changes:
  assumes "distinct (map task_id st)" and "app sv st rq = (tr, r, st')"
  shows "(validateRequest e createTaskSchema b = Next b'
            \<or> validateRequest e updateTaskSchema b = Next b' \<longrightarrow> map_of b' ''user'' = None)
    \<and> (route rq = CreateTask \<and> code r = 201 \<longrightarrow>
          (\<exists>u t. protect (verify sv) (users sv) (authorization rq) = Next u
             \<and> data r = TaskData (Some t) \<and> user t = user_id u \<and> st' = st @ [t]))
    \<and> (find_doc i st = Some t \<and> find_doc i st' = Some t' \<longrightarrow> user t' = user t)"
proof -
  have "map_of b' ''user'' = None"
    if "validateRequest e createTaskSchema b = Next b'
      \<or> validateRequest e updateTaskSchema b = Next b'"
  proof -
    have "''user'' \<notin> fst ` set b'"
      using that validateRequest_no_user [OF _ user_not_in_schemas(1)]
        validateRequest_no_user [OF _ user_not_in_schemas(2)] by blast
    then show ?thesis by (simp add: map_of_eq_None_iff)
  qed
  then show ?thesis
    using app_create [OF assms(2)] app_keeps_owner [OF assms] by blast
qed

theorem owner_is_caller_and_never_changes_witness:
  "distinct (map task_id [milk])
   \<and> app sample_server [milk] tea_request =
       ([RateLimit, TokenVerification, SchemaValidation, Handler],
        reply 201 ''Task created successfully'' (TaskData (Some tea)), [milk, tea])
   \<and> validateRequest sample_env createTaskSchema (req_body tea_request) =
       Next [(''title'', JStr ''Tea''), (''priority'', JStr ''medium''),
             (''isImportant'', JBool False)]
   \<and> map_of (req_body tea_request) ''user'' = Some (JStr ''000000000000000000000008'')
   \<and> route tea_request = CreateTask
   \<and> protect (verify sample_server) (users sample_server) (authorization tea_request) = Next ann
   \<and> user tea = user_id ann
   \<and> find_doc 1 [milk] = Some milk \<and> find_doc 1 [milk, tea] = Some milk"
proof -
  have d: "distinct (map task_id [milk])" by simp
  have v: "validateRequest sample_env createTaskSchema (req_body tea_request) =
      Next [(''title'', JStr ''Tea''), (''priority'', JStr ''medium''),
            (''isImportant'', JBool False)]"
    using validate_tea by (simp add: tea_request_def)
  have p: "protect (verify sample_server) (users sample_server) (authorization tea_request)
      = Next ann"
    using protect_good by (simp add: sample_server_def tea_request_def)
  have f: "find_doc 1 [milk] = Some milk \<and> find_doc 1 [milk, tea] = Some milk"
    by (simp add: milk_def)
  have o: "user tea = user_id ann \<and> route tea_request = CreateTask
      \<and> map_of (req_body tea_request) ''user'' = Some (JStr ''000000000000000000000008'')"
    by (simp add: tea_def ann_def tea_request_def)
  show ?thesis
    using d v p f o app_tea
      owner_is_caller_and_never_changes [OF d app_tea, of sample_env "req_body tea_request"
        "[(''title'', JStr ''Tea''), (''priority'', JStr ''medium''),
          (''isImportant'', JBool False)]" 1 milk milk]
    by simp
qed

lemma updateTask_dueDate:
  assumes "castObjectId s = Some i" and "find_doc i st = Some t" and "user t = user_id u"
  shows "fst (updateTask e st u s [(''dueDate'', JDate d)]) =
     reply 200 ''Task updated successfully''
       (TaskData (Some (t\<lparr>dueDate := Some d, updatedAt := now e\<rparr>)))"
  using assms
  by (simp add: updateTask_def findById_def findByIdAndUpdate_def cast_field_def cast_date_def)

text \<open>
  C9. A due date that is a date: creation rejects it with 400 when it is not after the
  present (and raises no violation for it otherwise); update raises no violation for it
  whatever it is, accepts it alone, and the handler stores it.
\<close>

theorem due_date_asymmetry:
  assumes "map_of b ''dueDate'' = Some v" and "coerce_date (parse_date e) v = Some d"
  shows "(d \<le> now e \<longrightarrow>
            (\<exists>r. validateRequest e createTaskSchema b = Respond r \<and> code r = 400
               \<and> (''dueDate'', ''date.greater'') \<in> set (errors r)))
    \<and> ((''dueDate'', c) \<in> set (fst (validate_fields (now e) (parse_date e) createTaskSchema b))
         \<longrightarrow> d \<le> now e)
    \<and> (''dueDate'', c) \<notin> set (fst (validate_fields (now e) (parse_date e) updateTaskSchema b))
    \<and> validateRequest e updateTaskSchema [(''dueDate'', v)] = Next [(''dueDate'', JDate d)]
    \<and> (castObjectId s = Some i \<and> find_doc i st = Some t \<and> user t = user_id u \<longrightarrow>
          fst (updateTask e st u s [(''dueDate'', JDate d)]) =
            reply 200 ''Task updated successfully''
              (TaskData (Some (t\<lparr>dueDate := Some d, updatedAt := now e\<rparr>))))"
proof -
  have "\<exists>r. validateRequest e createTaskSchema b = Respond r \<and> code r = 400
      \<and> (''dueDate'', ''date.greater'') \<in> set (errors r)" if "d \<le> now e"
  proof -
    obtain errs val where
      ev: "validate_fields (now e) (parse_date e) createTaskSchema b = (errs, val)"
      by (cases "validate_fields (now e) (parse_date e) createTaskSchema b")
    have m: "(''dueDate'', ''date.greater'') \<in> set errs"
      using create_dueDate_violation [OF assms, of "''date.greater''" "now e"] that ev by simp
    then have "errs \<noteq> []" by auto
    then show ?thesis using m by (simp add: validateRequest_def ev)
  qed
  then show ?thesis
    using create_dueDate_violation [OF assms, of c "now e"] update_dueDate_violation [OF assms]
      update_only_dueDate [OF assms(2)] updateTask_dueDate
    by simp
qed

theorem due_date_asymmetry_witness:
  "map_of [(''title'', JStr ''Tea''), (''dueDate'', JNum 500)] ''dueDate'' = Some (JNum 500)
   \<and> coerce_date (parse_date sample_env) (JNum 500) = Some 500
   \<and> 500 \<le> now sample_env
   \<and> (\<exists>r. validateRequest sample_env createTaskSchema
             [(''title'', JStr ''Tea''), (''dueDate'', JNum 500)] = Respond r
          \<and> code r = 400 \<and> (''dueDate'', ''date.greater'') \<in> set (errors r))
   \<and> validateRequest sample_env updateTaskSchema [(''dueDate'', JNum 500)]
       = Next [(''dueDate'', JDate 500)]
   \<and> castObjectId milk_id = Some 1 \<and> find_doc 1 [milk] = Some milk \<and> user milk = user_id ann
   \<and> fst (updateTask sample_env [milk] ann milk_id [(''dueDate'', JDate 500)]) =
       reply 200 ''Task updated successfully''
         (TaskData (Some (milk\<lparr>dueDate := Some 500, updatedAt := now sample_env\<rparr>)))"
proof -
  have a: "map_of [(''title'', JStr ''Tea''), (''dueDate'', JNum 500)] ''dueDate''
      = Some (JNum 500)" by simp
  have b: "coerce_date (parse_date sample_env) (JNum 500) = Some 500"
    by (simp add: coerce_date_def)
  have c: "500 \<le> now sample_env" by (simp add: sample_env_def)
  have d: "castObjectId milk_id = Some 1 \<and> find_doc 1 [milk] = Some milk
      \<and> user milk = user_id ann"
    by (simp add: castObjectId_milk_id milk_def ann_def)
  show ?thesis
    using a b c d
      due_date_asymmetry [OF a b, of "''date.greater''" milk_id 1 "[milk]" milk ann]
    by simp
qed



subsection \<open>Token verification and the pipeline\<close>

lemma find_user_id: "find_user i us = Some u \<Longrightarrow> user_id u = i"
  by (induction us) (auto split: if_splits)

text \<open>
  C7. \<open>protect\<close> answers 401 exactly when there is no token, or the token does not
  verify (malformed, bad signature, expired), or its subject is no active user; in every
  other case the request goes on as the user the token names. It never does anything
  else.
\<close>

theorem protect_rejects_with_401_or_proceeds:
  "((\<exists>r. protect v us h = Respond r \<and> code r = 401) =
      (bearer_token h = None
       \<or> (\<exists>tk err. bearer_token h = Some tk \<and> v tk = Inl err)
       \<or> (\<exists>tk sub. bearer_token h = Some tk \<and> v tk = Inr sub
            \<and> \<not> (\<exists>u. findUserById us sub = Inr (Some u) \<and> isActive u))))
   \<and> ((protect v us h = Next u) =
      (\<exists>tk sub. bearer_token h = Some tk \<and> v tk = Inr sub
         \<and> findUserById us sub = Inr (Some u) \<and> isActive u))
   \<and> ((\<exists>r. protect v us h = Respond r \<and> code r = 401) \<or> (\<exists>u. protect v us h = Next u))"
  by (auto simp: protect_def unauthorized_def reply_def
      split: option.splits sum.splits jwt_error.splits if_splits)

theorem protect_rejects_with_401_or_proceeds_witness:
  "protect sample_verify [ann, bob] (Some ''Bearer good'') = Next ann
   \<and> bearer_token (Some ''Bearer good'') = Some ''good''
   \<and> sample_verify ''good'' = Inr ''000000000000000000000007''
   \<and> findUserById [ann, bob] ''000000000000000000000007'' = Inr (Some ann)
   \<and> isActive ann
   \<and> protect sample_verify [ann, bob] (Some ''Bearer old'') =
       Respond (unauthorized ''Token expired. Please log in again.'')
   \<and> protect sample_verify [ann, bob] None =
       Respond (unauthorized ''Not authorized to access this route. No token provided.'')"
proof -
  have a: "bearer_token (Some ''Bearer good'') = Some ''good''"
    by (simp add: bearer_token_def)
  have b: "sample_verify ''good'' = Inr ''000000000000000000000007''"
    by (simp add: sample_verify_def)
  have c: "findUserById [ann, bob] ''000000000000000000000007'' = Inr (Some ann)"
    by (simp add: findUserById_def castObjectId_ann ann_def)
  have d: "isActive ann" by (simp add: ann_def)
  have e: "protect sample_verify [ann, bob] (Some ''Bearer old'') =
       Respond (unauthorized ''Token expired. Please log in again.'')"
    by (simp add: protect_def bearer_token_def sample_verify_def)
  have f: "protect sample_verify [ann, bob] None =
       Respond (unauthorized ''Not authorized to access this route. No token provided.'')"
    by (simp add: protect_def bearer_token_def)
  show ?thesis
    using a b c d e f
      protect_rejects_with_401_or_proceeds [of sample_verify "[ann, bob]"
        "Some ''Bearer good''" ann]
    by auto
qed

lemma run_trace:
  "\<exists>n. fst (run ch sv st rq) = take n (map fst ch) \<and> (ch \<noteq> [] \<longrightarrow> 0 < n)"
proof (induction ch arbitrary: rq)
  case Nil
  then show ?case by simp
next
  case (Cons nm ch)
  obtain n m where nm: "nm = (n, m)" by (cases nm)
  show ?case
  proof (cases "m sv st rq")
    case (Done r st')
    then have "fst (run (nm # ch) sv st rq) = take 1 (map fst (nm # ch))"
      by (simp add: nm)
    then show ?thesis by (metis zero_less_one)
  next
    case (Continue rq')
    from Cons.IH [of rq'] obtain k where "fst (run ch sv st rq') = take k (map fst ch)" by blast
    then have "fst (run (nm # ch) sv st rq) = take (Suc k) (map fst (nm # ch))"
      using Continue by (cases "run ch sv st rq'") (simp add: nm)
    then show ?thesis by (metis zero_less_Suc)
  qed
qed

lemma app_chain_stages:
  "map fst (app_chain r) =
     RateLimit # TokenVerification #
       (if r \<in> {ListTasks, CreateTask, UpdateTask} then [SchemaValidation, Handler] else [Handler])"
  by (cases r) (simp_all add: app_chain_def)

text \<open>
  C3. The stages a request to a task route runs are a non-empty initial part of: rate
  limit, token verification, schema validation (list, create and update only), handler.
  A request the token verification rejects gets that answer, whatever its body is.
\<close>

theorem pipeline_runs_in_order:
  "(\<exists>n. fst (app sv st rq) =
      take (Suc n) (RateLimit # TokenVerification #
        (if route rq \<in> {ListTasks, CreateTask, UpdateTask} then [SchemaValidation, Handler]
         else [Handler])))
   \<and> subseq (fst (app sv st rq)) [RateLimit, TokenVerification, SchemaValidation, Handler]
   \<and> (max_requests sv \<le> hits sv \<longrightarrow>
        fst (app sv st rq) = [RateLimit] \<and> code (fst (snd (app sv st rq))) = 429)
   \<and> (hits sv < max_requests sv
        \<and> protect (verify sv) (users sv) (authorization rq) = Respond r
      \<longrightarrow> app sv st rq = ([RateLimit, TokenVerification], r, st))
   \<and> (hits sv < max_requests sv
        \<and> protect (verify sv) (users sv) (authorization rq) = Next u
        \<and> route rq = UpdateTask
        \<and> validateRequest (server_env sv) updateTaskSchema (req_body rq) = Respond r
      \<longrightarrow> app sv st rq = ([RateLimit, TokenVerification, SchemaValidation], r, st))
   \<and> (hits sv < max_requests sv
        \<and> protect (verify sv) (users sv) (authorization rq) = Next u
        \<and> route rq = UpdateTask
        \<and> validateRequest (server_env sv) updateTaskSchema (req_body rq) = Next b
        \<and> castObjectId (params_id rq) = Some i \<and> find_doc i st = Some t
        \<and> user t \<noteq> user_id u
      \<longrightarrow> app sv st rq =
          ([RateLimit, TokenVerification, SchemaValidation, Handler],
           reply 403 ''Not authorized to update this task'' NoData, st))"
proof -
  let ?stages = "RateLimit # TokenVerification #
        (if route rq \<in> {ListTasks, CreateTask, UpdateTask} then [SchemaValidation, Handler]
         else [Handler])"
  obtain k where k: "fst (app sv st rq) = take k (map fst (app_chain (route rq)))" and "0 < k"
    using run_trace [of "app_chain (route rq)" sv st rq] by (auto simp: app_def app_chain_def)
  then obtain n where "k = Suc n" by (cases k) auto
  with k have tr: "fst (app sv st rq) = take (Suc n) ?stages"
    by (simp only: app_chain_stages)
  have "prefix (take (Suc n) ?stages) ?stages" by (rule take_is_prefix)
  then have "subseq (take (Suc n) ?stages) ?stages" by (rule prefix_imp_subseq)
  moreover have "subseq ?stages [RateLimit, TokenVerification, SchemaValidation, Handler]"
    by simp
  ultimately have sub: "subseq (fst (app sv st rq))
      [RateLimit, TokenVerification, SchemaValidation, Handler]"
    using tr subseq_order.order_trans by metis
  have limited: "fst (app sv st rq) = [RateLimit] \<and> code (fst (snd (app sv st rq))) = 429"
    if "max_requests sv \<le> hits sv"
    using that by (simp add: app_unfold reply_def)
  have rejected: "app sv st rq = ([RateLimit, TokenVerification], r, st)"
    if "hits sv < max_requests sv"
      and "protect (verify sv) (users sv) (authorization rq) = Respond r"
    using that by (simp add: app_unfold)
  have invalid: "app sv st rq = ([RateLimit, TokenVerification, SchemaValidation], r, st)"
    if "hits sv < max_requests sv"
      and "protect (verify sv) (users sv) (authorization rq) = Next u"
      and "route rq = UpdateTask"
      and "validateRequest (server_env sv) updateTaskSchema (req_body rq) = Respond r"
    using that by (simp add: app_unfold validate_body_mw_def)
  have foreign: "app sv st rq =
          ([RateLimit, TokenVerification, SchemaValidation, Handler],
           reply 403 ''Not authorized to update this task'' NoData, st)"
    if "hits sv < max_requests sv"
      and "protect (verify sv) (users sv) (authorization rq) = Next u"
      and "route rq = UpdateTask"
      and "validateRequest (server_env sv) updateTaskSchema (req_body rq) = Next b"
      and "castObjectId (params_id rq) = Some i" and "find_doc i st = Some t"
      and "user t \<noteq> user_id u"
    using that
    by (simp add: app_unfold validate_body_mw_def handler_mw_def updateTask_def findById_def)
  show ?thesis
    using tr sub limited rejected invalid foreign by blast
qed

lemma protect_anonymous:
  "protect (verify sample_server) (users sample_server) (authorization anonymous_request)
     = Respond (unauthorized ''Not authorized to access this route. No token provided.'')"
  by (simp add: protect_def bearer_token_def anonymous_request_def)

lemma castObjectId_bob: "castObjectId ''000000000000000000000008'' = Some 8"
  by (simp add: castObjectId_def hex_digit_def)

lemma protect_bob: "protect sample_verify [ann, bob] (Some ''Bearer bobs'') = Next bob"
  by (simp add: protect_def bearer_token_def sample_verify_def findUserById_def
      castObjectId_bob ann_def bob_def)

lemma validate_bob_update:
  "validateRequest sample_env updateTaskSchema [(''status'', JStr ''completed'')]
     = Next [(''status'', JStr ''completed'')]"
  "validateRequest sample_env updateTaskSchema [(''title'', JStr [])]
     = Respond \<lparr>code = 400, message = ''Validation failed'',
         errors = [(''title'', ''string.empty'')], count = None, data = NoData\<rparr>"
  by (simp_all add: validateRequest_def validate_fields_def validate_field_def
      updateTaskSchema_def optional_def validate_value_def)

theorem pipeline_runs_in_order_witness:
  "max_requests (sample_server\<lparr>hits := 100\<rparr>) \<le> hits (sample_server\<lparr>hits := 100\<rparr>)
   \<and> fst (app (sample_server\<lparr>hits := 100\<rparr>) [milk] anonymous_request) = [RateLimit]
   \<and> code (fst (snd (app (sample_server\<lparr>hits := 100\<rparr>) [milk] anonymous_request))) = 429
   \<and> hits sample_server < max_requests sample_server
   \<and> protect (verify sample_server) (users sample_server) (authorization anonymous_request)
       = Respond (unauthorized ''Not authorized to access this route. No token provided.'')
   \<and> app sample_server [milk] anonymous_request =
       ([RateLimit, TokenVerification],
        unauthorized ''Not authorized to access this route. No token provided.'', [milk])
   \<and> protect (verify sample_server) (users sample_server) (authorization bob_update_request)
       = Next bob
   \<and> validateRequest (server_env sample_server) updateTaskSchema
         (req_body bob_bad_update_request)
       = Respond \<lparr>code = 400, message = ''Validation failed'',
           errors = [(''title'', ''string.empty'')], count = None, data = NoData\<rparr>
   \<and> app sample_server [milk] bob_bad_update_request =
       ([RateLimit, TokenVerification, SchemaValidation],
        \<lparr>code = 400, message = ''Validation failed'',
           errors = [(''title'', ''string.empty'')], count = None, data = NoData\<rparr>, [milk])
   \<and> validateRequest (server_env sample_server) updateTaskSchema (req_body bob_update_request)
       = Next [(''status'', JStr ''completed'')]
   \<and> castObjectId (params_id bob_update_request) = Some 1 \<and> find_doc 1 [milk] = Some milk
   \<and> user milk \<noteq> user_id bob
   \<and> app sample_server [milk] bob_update_request =
       ([RateLimit, TokenVerification, SchemaValidation, Handler],
        reply 403 ''Not authorized to update this task'' NoData, [milk])"
proof -
  let ?busy = "sample_server\<lparr>hits := 100\<rparr>"
  have a: "hits sample_server < max_requests sample_server"
    and a': "max_requests ?busy \<le> hits ?busy"
    by (simp_all add: sample_server_def)
  have p: "protect (verify sample_server) (users sample_server)
      (authorization bob_update_request) = Next bob"
    and p': "protect (verify sample_server) (users sample_server)
      (authorization bob_bad_update_request) = Next bob"
    using protect_bob
    by (simp_all add: sample_server_def bob_update_request_def bob_bad_update_request_def)
  have r: "route bob_update_request = UpdateTask" "route bob_bad_update_request = UpdateTask"
    by (simp_all add: bob_update_request_def bob_bad_update_request_def)
  have v: "validateRequest (server_env sample_server) updateTaskSchema
      (req_body bob_update_request) = Next [(''status'', JStr ''completed'')]"
    and v': "validateRequest (server_env sample_server) updateTaskSchema
      (req_body bob_bad_update_request)
       = Respond \<lparr>code = 400, message = ''Validation failed'',
           errors = [(''title'', ''string.empty'')], count = None, data = NoData\<rparr>"
    using validate_bob_update
    by (simp_all add: sample_server_def bob_update_request_def bob_bad_update_request_def)
  have f: "castObjectId (params_id bob_update_request) = Some 1 \<and> find_doc 1 [milk] = Some milk
      \<and> user milk \<noteq> user_id bob"
    using castObjectId_milk_id by (simp add: bob_update_request_def milk_def bob_def)
  show ?thesis
    using a a' p r v v' f protect_anonymous
      pipeline_runs_in_order [of ?busy "[milk]" anonymous_request]
      pipeline_runs_in_order [of sample_server "[milk]" anonymous_request
        "unauthorized ''Not authorized to access this route. No token provided.''"]
      pipeline_runs_in_order [of sample_server "[milk]" bob_bad_update_request
        "\<lparr>code = 400, message = ''Validation failed'',
           errors = [(''title'', ''string.empty'')], count = None, data = NoData\<rparr>" bob]
      pipeline_runs_in_order [of sample_server "[milk]" bob_update_request _ bob
        "[(''status'', JStr ''completed'')]" 1 milk]
      p'
    by simp
qed

text \<open>
  The stages do not run in the order the specification gives, in which validation
  comes before token verification: a create request with a good token runs token
  verification first, and one with no token and an empty title is answered 401 by the
  token verification although validation would answer it 400.
\<close>

theorem validation_runs_after_token_verification:
  "fst (app sample_server [milk] tea_request) =
     [RateLimit, TokenVerification, SchemaValidation, Handler]
   \<and> \<not> subseq (fst (app sample_server [milk] tea_request)) claimed_order
   \<and> validateRequest sample_env createTaskSchema (req_body anonymous_request) =
       Respond \<lparr>code = 400, message = ''Validation failed'', errors = [(''title'', ''string.empty'')],
         count = None, data = NoData\<rparr>
   \<and> app sample_server [milk] anonymous_request =
       ([RateLimit, TokenVerification],
        reply 401 ''Not authorized to access this route. No token provided.'' NoData, [milk])"
proof -
  have "validateRequest sample_env createTaskSchema (req_body anonymous_request) =
       Respond \<lparr>code = 400, message = ''Validation failed'', errors = [(''title'', ''string.empty'')],
         count = None, data = NoData\<rparr>"
    by (simp add: validateRequest_def validate_fields_def validate_field_def
        createTaskSchema_def optional_def validate_value_def anonymous_request_def)
  moreover have "app sample_server [milk] anonymous_request =
       ([RateLimit, TokenVerification],
        reply 401 ''Not authorized to access this route. No token provided.'' NoData, [milk])"
    using protect_anonymous by (simp add: app_unfold sample_server_def unauthorized_def)
  ultimately show ?thesis
    by (simp add: app_tea claimed_order_def)
qed

subsection \<open>Sorting\<close>

lemma bson_lt_irrefl: "\<not> bson_lt x x"
  by (cases x) simp_all

lemma bson_lt_asym: "bson_lt x y \<Longrightarrow> \<not> bson_lt y x"
  by (cases x; cases y) auto

lemma bson_lt_trans: "bson_lt x y \<Longrightarrow> bson_lt y z \<Longrightarrow> bson_lt x z"
  by (cases x; cases y; cases z) auto

lemma bson_lt_total: "bson_lt x y \<or> x = y \<or> bson_lt y x"
  by (cases x; cases y) auto

lemma sorts_before_asym: "sorts_before sp a b \<Longrightarrow> \<not> sorts_before sp b a"
proof (induction sp)
  case Nil
  then show ?case by simp
next
  case (Cons pd sp)
  obtain p d where pd: "pd = (p, d)" by (cases pd)
  show ?case
    using Cons bson_lt_asym [of "path_value p a" "path_value p b"]
    by (cases d) (auto simp: pd split: if_splits)
qed

lemma sorts_before_negtrans:
  "\<not> sorts_before sp a b \<Longrightarrow> \<not> sorts_before sp b c \<Longrightarrow> \<not> sorts_before sp a c"
proof (induction sp)
  case Nil
  then show ?case by simp
next
  case (Cons pd sp)
  obtain p d where pd: "pd = (p, d)" by (cases pd)
  let ?x = "path_value p a" and ?y = "path_value p b" and ?z = "path_value p c"
  consider "bson_lt ?x ?z" | "bson_lt ?z ?x" | "?x = ?z"
    using bson_lt_total by blast
  then show ?case
  proof cases
    case 1
    consider "bson_lt ?x ?y" | "bson_lt ?y ?x" | "?x = ?y" using bson_lt_total by blast
    then show ?thesis
    proof cases
      case 1
      then show ?thesis using Cons.prems \<open>bson_lt ?x ?z\<close> bson_lt_asym [of ?x ?y]
        by (cases d) (auto simp: pd split: if_splits)
    next
      case 2
      then have "bson_lt ?y ?z" using \<open>bson_lt ?x ?z\<close> bson_lt_trans by blast
      then show ?thesis using Cons.prems \<open>bson_lt ?x ?z\<close> bson_lt_asym [of ?y ?z]
          bson_lt_asym [of ?x ?z]
        by (cases d) (auto simp: pd split: if_splits)
    next
      case 3
      then show ?thesis using Cons.prems \<open>bson_lt ?x ?z\<close> bson_lt_asym [of ?x ?z]
        by (cases d) (auto simp: pd split: if_splits)
    qed
  next
    case 2
    consider "bson_lt ?x ?y" | "bson_lt ?y ?x" | "?x = ?y" using bson_lt_total by blast
    then show ?thesis
    proof cases
      case 1
      then have "bson_lt ?z ?y" using \<open>bson_lt ?z ?x\<close> bson_lt_trans by blast
      then show ?thesis using Cons.prems \<open>bson_lt ?z ?x\<close> bson_lt_asym [of ?z ?y]
          bson_lt_asym [of ?z ?x] 1 bson_lt_asym [of ?x ?y]
        by (cases d) (auto simp: pd split: if_splits)
    next
      case 2
      then show ?thesis using Cons.prems \<open>bson_lt ?z ?x\<close> bson_lt_asym [of ?y ?x]
          bson_lt_asym [of ?z ?x]
        by (cases d) (auto simp: pd split: if_splits)
    next
      case 3
      then show ?thesis using Cons.prems \<open>bson_lt ?z ?x\<close> bson_lt_asym [of ?z ?x]
        by (cases d) (auto simp: pd split: if_splits)
    qed
  next
    case 3
    consider "bson_lt ?x ?y" | "bson_lt ?y ?x" | "?x = ?y" using bson_lt_total by blast
    then show ?thesis
    proof cases
      case 1
      then show ?thesis using Cons.prems 3 bson_lt_asym [of ?x ?y]
        by (cases d) (auto simp: pd bson_lt_irrefl split: if_splits)
    next
      case 2
      then show ?thesis using Cons.prems 3 bson_lt_asym [of ?y ?x]
        by (cases d) (auto simp: pd bson_lt_irrefl split: if_splits)
    next
      case 3
      then show ?thesis using Cons.prems \<open>?x = ?z\<close> Cons.IH
        by (auto simp: pd bson_lt_irrefl split: if_splits)
    qed
  qed
qed

lemma set_insert_doc: "set (insert_doc sp t xs) = insert t (set xs)"
  by (induction xs) auto

lemma sorted_insert_doc:
  assumes "sorted_wrt (\<lambda>a b. \<not> sorts_before sp b a) xs"
  shows "sorted_wrt (\<lambda>a b. \<not> sorts_before sp b a) (insert_doc sp t xs)"
  using assms
proof (induction xs)
  case Nil
  then show ?case by simp
next
  case (Cons x xs)
  show ?case
  proof (cases "sorts_before sp x t")
    case True
    then have "\<not> sorts_before sp t x" by (rule sorts_before_asym)
    then show ?thesis using Cons True by (auto simp: set_insert_doc)
  next
    case False
    have "\<not> sorts_before sp y t" if "y \<in> set xs" for y
    proof -
      have "\<not> sorts_before sp y x" using Cons.prems that by auto
      then show ?thesis using False sorts_before_negtrans by blast
    qed
    then show ?thesis using Cons.prems False by auto
  qed
qed

lemma sorted_sort_docs: "sorted_wrt (\<lambda>a b. \<not> sorts_before sp b a) (sort_docs sp xs)"
  by (induction xs) (simp_all add: sorted_insert_doc)

lemma mset_insert_doc: "mset (insert_doc sp t xs) = add_mset t (mset xs)"
  by (induction xs) auto

lemma mset_sort_docs: "mset (sort_docs sp xs) = mset xs"
  by (induction xs) (simp_all add: mset_insert_doc)



subsection \<open>The task list\<close>

lemma not_sorts_before_task_sort:
  "\<not> sorts_before task_sort b a \<Longrightarrow> list_order a b"
  by (auto simp: task_sort_def list_order_def split: option.splits if_splits)

lemma sorted_task_sort: "sorted_wrt list_order (sort_docs task_sort xs)"
  using sorted_sort_docs [of task_sort xs] not_sorts_before_task_sort
  by (rule sorted_wrt_mono_rel [rotated]) 

lemma set_sort_docs: "set (sort_docs sp xs) = set xs"
  using mset_sort_docs [of sp xs] by (metis set_mset_mset)

lemma length_sort_docs: "length (sort_docs sp xs) = length xs"
  using mset_sort_docs [of sp xs] by (metis size_mset)

lemma task_query_user:
  "task_query e uid q = Inr m \<Longrightarrow> m t \<Longrightarrow> user t = uid"
  by (auto simp: task_query_def Let_def split: sum.splits)

lemma getTasks_ok:
  assumes "task_query e (user_id u) q = Inr m"
  shows "getTasks e st u q =
     \<lparr>code = 200, message = [], errors = [], count = Some (length (filter m st)),
      data = ListData (sort_docs task_sort (filter m st))
        \<lparr>total = countDocuments st (\<lambda>t. user t = user_id u),
         completed = countDocuments st (\<lambda>t. user t = user_id u \<and> status t = Completed),
         pending = countDocuments st (\<lambda>t. user t = user_id u \<and> status t = Pending),
         important = countDocuments st (\<lambda>t. user t = user_id u \<and> isImportant t)\<rparr>\<rparr>"
  using assms by (simp add: getTasks_def Let_def length_sort_docs)

lemma getTasks_failed:
  assumes "task_query e (user_id u) q = Inl err"
  shows "getTasks e st u q = reply 500 ''Error fetching tasks'' NoData"
  using assms by (simp add: getTasks_def Let_def)

lemma getTasks_list:
  assumes "data (getTasks e st u q) = ListData ts s"
  shows "\<exists>m. task_query e (user_id u) q = Inr m \<and> ts = sort_docs task_sort (filter m st)"
proof (cases "task_query e (user_id u) q")
  case (Inl err)
  then show ?thesis using assms by (simp add: getTasks_failed reply_def)
next
  case (Inr m)
  then show ?thesis using assms by (simp add: getTasks_ok)
qed

lemma getUserTasks_list:
  assumes "getUserTasks st uid f = Inr ts"
  shows "\<exists>p. ts = sort_docs task_sort (filter p st)"
  using assms
  by (auto simp: getUserTasks_def Let_def split: sum.splits prod.splits)

text \<open>
  C1. The tasks a list request returns are sorted: important tasks first, then by due
  date ascending with the tasks that have no due date first, then by creation time
  descending. They are tasks of the caller. The model's \<open>getUserTasks\<close> sorts the same
  way.
\<close>

theorem task_list_is_sorted:
  assumes "data (getTasks e st u q) = ListData ts s"
  shows "sorted_wrt list_order ts \<and> (\<forall>t \<in> set ts. t \<in> set st \<and> user t = user_id u)
    \<and> (getUserTasks st uid f = Inr ts' \<longrightarrow> sorted_wrt list_order ts')"
proof -
  obtain m where m: "task_query e (user_id u) q = Inr m"
    and ts: "ts = sort_docs task_sort (filter m st)"
    using getTasks_list [OF assms] by blast
  have "sorted_wrt list_order ts" by (simp add: ts sorted_task_sort)
  moreover have "\<forall>t \<in> set ts. t \<in> set st \<and> user t = user_id u"
    using task_query_user [OF m] by (auto simp: ts set_sort_docs)
  moreover have "sorted_wrt list_order ts'" if "getUserTasks st uid f = Inr ts'"
    using getUserTasks_list [OF that] sorted_task_sort by auto
  ultimately show ?thesis by blast
qed

lemma list_rent_milk:
  "getTasks sample_env [rent, milk] ann [] =
     \<lparr>code = 200, message = [], errors = [], count = Some 2,
      data = ListData [milk, rent] \<lparr>total = 2, completed = 1, pending = 1, important = 0\<rparr>\<rparr>"
  by (simp add: getTasks_def task_query_def countDocuments_def task_sort_def Let_def
      rent_def milk_def ann_def)

text \<open>
  The list is not in the order the specification gives, in which a task without a due
  date comes after the dated ones: of two unimportant tasks the undated one is returned
  first.
\<close>

theorem undated_task_is_listed_first:
  "getTasks sample_env [rent, milk] ann [] =
     \<lparr>code = 200, message = [], errors = [], count = Some 2,
      data = ListData [milk, rent] \<lparr>total = 2, completed = 1, pending = 1, important = 0\<rparr>\<rparr>
   \<and> dueDate milk = None \<and> dueDate rent = Some 5000
   \<and> \<not> sorted_wrt claimed_list_order [milk, rent]"
  using list_rent_milk by (simp add: claimed_list_order_def milk_def rent_def)

lemma length_filter_eq_length: "(length (filter P xs) = length xs) = (\<forall>x \<in> set xs. P x)"
proof (induction xs)
  case Nil
  then show ?case by simp
next
  case (Cons x xs)
  show ?case
  proof (cases "P x")
    case True
    then show ?thesis using Cons by simp
  next
    case False
    have "length (filter P xs) < Suc (length xs)"
      by (simp add: le_imp_less_Suc)
    then have "length (filter P xs) \<noteq> Suc (length xs)" by linarith
    then show ?thesis using False by simp
  qed
qed

lemma count_agrees:
  assumes "\<And>t. m t \<Longrightarrow> p t"
  shows "(length (filter m st) = length (filter p st)) = (\<forall>t \<in> set st. p t \<longrightarrow> m t)"
proof -
  have "filter m st = filter m (filter p st)"
    using assms by (auto intro: filter_cong)
  then have "(length (filter m st) = length (filter p st))
      = (length (filter m (filter p st)) = length (filter p st))" by simp
  also have "\<dots> = (\<forall>t \<in> set (filter p st). m t)" by (rule length_filter_eq_length)
  finally show ?thesis by auto
qed

text \<open>
  C10. A list request the store can answer gets 200 with the tasks that match its
  filters, \<open>count\<close> their number, and beside them the statistics of all the caller's
  tasks: the same numbers an unfiltered request gets. \<open>count\<close> equals \<open>total\<close> exactly
  when every task of the caller matches the filters.
\<close>

theorem list_statistics_ignore_filters:
  assumes "task_query e (user_id u) q = Inr m"
  shows "\<exists>ts s. getTasks e st u q =
        \<lparr>code = 200, message = [], errors = [], count = Some (length ts), data = ListData ts s\<rparr>
      \<and> mset ts = mset (filter m st)
      \<and> data (getTasks e st u []) = ListData (sort_docs task_sort (filter (\<lambda>t. user t = user_id u) st)) s
      \<and> total s = length (filter (\<lambda>t. user t = user_id u) st)
      \<and> completed s = length (filter (\<lambda>t. user t = user_id u \<and> status t = Completed) st)
      \<and> pending s = length (filter (\<lambda>t. user t = user_id u \<and> status t = Pending) st)
      \<and> important s = length (filter (\<lambda>t. user t = user_id u \<and> isImportant t) st)
      \<and> ((length ts = total s) = (\<forall>t \<in> set st. user t = user_id u \<longrightarrow> m t))"
proof -
  have all: "task_query e (user_id u) [] = Inr (\<lambda>t. user t = user_id u)"
    by (simp add: task_query_def)
  have "(length (filter m st) = length (filter (\<lambda>t. user t = user_id u) st))
      = (\<forall>t \<in> set st. user t = user_id u \<longrightarrow> m t)"
    using task_query_user [OF assms] by (rule count_agrees)
  then show ?thesis
    by (simp add: getTasks_ok [OF assms] getTasks_ok [OF all] countDocuments_def
        mset_sort_docs length_sort_docs)
qed

lemma query_completed:
  "task_query sample_env (user_id ann) [(''status'', JStr ''completed'')]
     = Inr (\<lambda>t. user t = user_id ann \<and> status_str (status t) = ''completed'')"
  by (simp add: task_query_def truthy_def string_cond_def)

theorem list_statistics_ignore_filters_witness:
  "task_query sample_env (user_id ann) [(''status'', JStr ''completed'')]
     = Inr (\<lambda>t. user t = user_id ann \<and> status_str (status t) = ''completed'')
   \<and> getTasks sample_env [rent, milk] ann [(''status'', JStr ''completed'')] =
       \<lparr>code = 200, message = [], errors = [], count = Some 1,
        data = ListData [rent] \<lparr>total = 2, completed = 1, pending = 1, important = 0\<rparr>\<rparr>
   \<and> milk \<in> set [rent, milk] \<and> user milk = user_id ann
   \<and> status_str (status milk) \<noteq> ''completed''"
proof -
  have "getTasks sample_env [rent, milk] ann [(''status'', JStr ''completed'')] =
       \<lparr>code = 200, message = [], errors = [], count = Some 1,
        data = ListData [rent] \<lparr>total = 2, completed = 1, pending = 1, important = 0\<rparr>\<rparr>"
    unfolding getTasks_ok [OF query_completed]
    by (simp add: countDocuments_def rent_def milk_def ann_def)
  moreover have "milk \<in> set [rent, milk] \<and> user milk = user_id ann
      \<and> status_str (status milk) \<noteq> ''completed''"
    by (simp add: milk_def ann_def)
  ultimately show ?thesis
    using query_completed
      list_statistics_ignore_filters [OF query_completed, of "[rent, milk]"]
    by simp
qed

theorem task_list_is_sorted_witness:
  "data (getTasks sample_env [rent, milk] ann []) =
     ListData [milk, rent] \<lparr>total = 2, completed = 1, pending = 1, important = 0\<rparr>
   \<and> sorted_wrt list_order [milk, rent]
   \<and> getUserTasks [rent, milk] 7 [] = Inr [milk, rent]"
proof -
  have a: "data (getTasks sample_env [rent, milk] ann []) =
     ListData [milk, rent] \<lparr>total = 2, completed = 1, pending = 1, important = 0\<rparr>"
    by (simp add: list_rent_milk)
  have b: "getUserTasks [rent, milk] 7 [] = Inr [milk, rent]"
    by (simp add: getUserTasks_def task_sort_def rent_def milk_def)
  show ?thesis
    using a b task_list_is_sorted [OF a, where uid = 7 and f = "[]" and ts' = "[milk, rent]"]
    by simp
qed


subsection \<open>Statistics\<close>


lemma floor_rat_numeral: "\<lfloor>(numeral a :: rat) / numeral b\<rfloor> = numeral a div numeral b"
  by (metis floor_divide_of_int_eq of_int_numeral)

lemma powi_less_imp_less:
  assumes "(2::rat) powi m < 2 powi n"
  shows "m < n"
proof (rule ccontr)
  assume "\<not> m < n"
  then have "n \<le> m" by simp
  then have "(2::rat) powi n \<le> 2 powi m" by (rule power_int_increasing) simp
  with assms show False by simp
qed

lemma binade_bounds:
  assumes "0 < q"
  shows "2 powi (binade q) \<le> q \<and> q < 2 powi (binade q + 1)"
proof -
  obtain a b where ab: "quotient_of q = (a, b)" by (cases "quotient_of q")
  have b: "0 < b" using ab by (rule quotient_of_denom_pos)
  have q: "q = of_int a / of_int b" using ab by (rule quotient_of_div)
  have a: "0 < a"
    using assms b by (simp add: q zero_less_divide_iff)
  define na nb where "na = nat a" and "nb = nat b"
  have qn: "q = of_nat na / of_nat nb"
    using a b by (simp add: q na_def nb_def)
  have pos: "0 < na" "0 < nb" using a b by (simp_all add: na_def nb_def)
  define la lb where "la = floorlog 2 na" and "lb = floorlog 2 nb"
  have ba: "2 ^ (la - 1) \<le> na \<and> na < 2 ^ la"
    unfolding la_def using pos(1) by (intro floorlog_bounds) simp_all
  have bb: "2 ^ (lb - 1) \<le> nb \<and> nb < 2 ^ lb"
    unfolding lb_def using pos(2) by (intro floorlog_bounds) simp_all
  have la: "0 < la" and lb: "0 < lb"
    using pos by (simp_all add: la_def lb_def floorlog_def)
  define k where "k = int la - int lb"
  have ra: "(2::rat) ^ (la - 1) \<le> of_nat na \<and> (of_nat na :: rat) < 2 ^ la"
    using ba by (metis of_nat_le_iff of_nat_less_iff of_nat_numeral of_nat_power)
  have rb: "(2::rat) ^ (lb - 1) \<le> of_nat nb \<and> (of_nat nb :: rat) < 2 ^ lb"
    using bb by (metis of_nat_le_iff of_nat_less_iff of_nat_numeral of_nat_power)
  have up: "q < 2 powi (k + 1)"
  proof -
    have "q < 2 ^ la / 2 ^ (lb - 1)"
      unfolding qn using ra rb pos by (intro frac_less) simp_all
    also have "\<dots> = 2 powi (int la - int (lb - 1))"
      by (subst power_int_diff) simp_all
    also have "int la - int (lb - 1) = k + 1"
      using lb by (simp add: k_def)
    finally show ?thesis .
  qed
  have low: "2 powi (k - 1) < q"
  proof -
    have "(2::rat) ^ (la - 1) / 2 ^ lb < of_nat na / of_nat nb"
      using ra rb pos by (intro frac_less2) simp_all
    moreover have "(2::rat) ^ (la - 1) / 2 ^ lb = 2 powi (int (la - 1) - int lb)"
      by (subst power_int_diff) simp_all
    moreover have "int (la - 1) - int lb = k - 1"
      using la by (simp add: k_def)
    ultimately show ?thesis by (simp add: qn)
  qed
  have bin: "binade q = (if 2 powi k \<le> q then k else k - 1)"
    by (simp add: binade_def ab Let_def k_def la_def lb_def na_def nb_def)
  show ?thesis
  proof (cases "2 powi k \<le> q")
    case True
    then show ?thesis using up by (simp add: bin)
  next
    case False
    then show ?thesis using low by (simp add: bin)
  qed
qed

lemma binade_eq:
  assumes "2 powi k \<le> q" and "q < 2 powi (k + 1)"
  shows "binade q = k"
proof -
  have "(0::rat) < 2 powi k" by simp
  then have "0 < q" using assms(1) by (rule less_le_trans)
  from binade_bounds [OF this]
  have 1: "2 powi (binade q) \<le> q" and 2: "q < 2 powi (binade q + 1)" by simp_all
  have "(2::rat) powi (binade q) < 2 powi (k + 1)" using 1 assms(2) by simp
  then have "binade q < k + 1" by (rule powi_less_imp_less)
  moreover have "(2::rat) powi k < 2 powi (binade q + 1)" using 2 assms(1) by simp
  then have "k < binade q + 1" by (rule powi_less_imp_less)
  ultimately show ?thesis by simp
qed

lemma binade_23_40: "binade (23 / 40) = - 1"
  by (rule binade_eq) (simp_all add: power_int_minus)

lemma round_23_40: "round_half_even (25895697857380352 / 5) = 5179139571476070"
  by (simp add: round_half_even_def Let_def floor_rat_numeral)

lemma js_div_23_40: "js_div 23 40 = 2589569785738035 / 4503599627370496"
proof -
  have "\<bar>23 / 40 :: rat\<bar> / 2 powi (- 1 - 52) = 23 / 40 * 2 ^ 53"
    by (simp add: power_int_minus)
  then show ?thesis
    by (simp add: js_div_def to_double_def binade_23_40 round_23_40 Let_def power_int_minus)
qed

lemma binade_product: "binade (64739244643450875 / 1125899906842624) = 5"
  by (rule binade_eq) simp_all

lemma round_product: "round_half_even (64739244643450875 / 8) = 8092405580431359"
  by (simp add: round_half_even_def Let_def floor_rat_numeral)

lemma js_mul_product: "js_mul (2589569785738035 / 4503599627370496) 100 = 8092405580431359 / 140737488355328"
proof -
  show ?thesis
    by (simp add: js_mul_def to_double_def binade_product round_product Let_def power_int_minus)
qed

lemma completion_rate_23_40: "completion_rate 23 40 = 57"
  by (simp add: completion_rate_def js_div_23_40 js_mul_product math_round_def floor_rat_numeral)

lemma forty_counts:
  "countDocuments forty_tasks (\<lambda>t. user t = user_id ann) = 40"
  "countDocuments forty_tasks (\<lambda>t. user t = user_id ann \<and> status t = Completed) = 23"
  "countDocuments forty_tasks (\<lambda>t. user t = user_id ann \<and> status t = Pending) = 17"
  "countDocuments forty_tasks (\<lambda>t. user t = user_id ann \<and> isImportant t) = 0"
  "countDocuments forty_tasks
     (\<lambda>t. user t = user_id ann \<and> status t = Pending \<and> date_lt (dueDate t) (now sample_env)) = 0"
  "countDocuments forty_tasks (\<lambda>t. user t = user_id ann \<and> priority t = High) = 40"
  "countDocuments forty_tasks (\<lambda>t. user t = user_id ann \<and> priority t = Medium) = 0"
  "countDocuments forty_tasks (\<lambda>t. user t = user_id ann \<and> priority t = Low) = 0"
  by code_simp+

lemma completion_rate_no_tasks: "completion_rate c 0 = 0"
  by (simp add: completion_rate_def)

lemma overdue_count:
  "\<exists>s. data (getTaskStats e st u) = StatsData s
     \<and> overdue s = length (filter (\<lambda>t. user t = user_id u \<and> status t = Pending
          \<and> (\<exists>d. dueDate t = Some d \<and> d < now e)) st)"
proof -
  have "date_lt x n = (\<exists>d. x = Some d \<and> d < n)" for x n
    by (simp add: date_lt_def split: option.splits)
  then show ?thesis
    by (simp add: getTaskStats_def reply_def countDocuments_def Let_def)
qed

text \<open>
  C6. With 23 of 40 tasks completed the statistics handler reports a completion rate
  of 57, where \<open>100 \<times> 23 / 40 = 57.5\<close> rounds to 58: the quotient \<open>23 / 40\<close> is rounded to
  a binary64 number before it is multiplied by 100, and the product falls below 57.5.
\<close>

theorem completion_rate_of_23_in_40:
  "getTaskStats sample_env forty_tasks ann =
     reply 200 []
       (StatsData \<lparr>total = 40, completed = 23, pending = 17, important = 0, overdue = 0,
          completionRate = 57, high = 40, medium = 0, low = 0\<rparr>)
   \<and> claimed_completion_rate 23 40 = 58"
  by (simp add: getTaskStats_def Let_def forty_counts completion_rate_23_40
      claimed_completion_rate_def floor_rat_numeral)

end
